theory Spec2Isabelle
  imports
    Complex_Main
    "HOL-Library.Char_ord"
    "HOL-Library.List_Lexorder"
    "HOL-Library.Product_Lexorder"
    "HOL-Library.Multiset"
begin

section \<open>Data model of the frontend (src/frontend/src/lib/api.ts)\<close>

text \<open>
  The TypeScript interfaces \<^verbatim>\<open>Project\<close> and \<^verbatim>\<open>PairResponse\<close>. Optional fields
  are options. A JavaScript \<^verbatim>\<open>number\<close> is modelled twice. In this section and the two
  that follow it is a real, and the arithmetic is the exact arithmetic the source's
  formulas denote. In the section on IEEE doubles the same computations are written once
  more with the rounding of the program (the definitions whose names end in \<open>_d\<close>); the
  field \<open>sigma\<close> is then the number as the response writes it.
  The field \<^verbatim>\<open>id\<close> is named \<open>id_p\<close>, since \<open>id\<close> is the identity function of HOL.
\<close>

record project =
  id_p :: string
  title :: string
  category :: string
  subtitle :: "string option"
  description :: string
  team_name :: "string option"
  writeup_url :: "string option"
  video_url :: "string option"
  project_links :: "string option"
  mu :: real
  sigma :: real

record pairResponse =
  project_a :: project
  project_b :: project

section \<open>The leaderboard confidence (src/frontend/src/pages/LeaderboardPage.tsx)\<close>

text \<open>
  \<^verbatim>\<open>
  const INITIAL_SIGMA = 8.333;
  const avgSigma = projects.length > 0
      ? projects.reduce((acc, p) => acc + p.sigma, 0) / projects.length
      : INITIAL_SIGMA;
  const rawConfidence = Math.max(0, (INITIAL_SIGMA - avgSigma) / (INITIAL_SIGMA - 1.0)) * 100;
  const confidence = Math.min(100, rawConfidence);
  \<close>
  \<^verbatim>\<open>reduce\<close> with an initial value is a left fold; \<^verbatim>\<open>Math.max\<close> and
  \<^verbatim>\<open>Math.min\<close> on two numbers are \<open>max\<close> and \<open>min\<close>. In exact arithmetic the sum,
  and so \<open>avgSigma\<close>, does not depend on the order of the list; the program's sum in
  doubles does, by a unit in the last place (\<open>avgSigma_d\<close> below).
\<close>

definition INITIAL_SIGMA :: real where
  "INITIAL_SIGMA = 8333 / 1000"

definition avgSigma :: "project list \<Rightarrow> real" where
  "avgSigma projects =
     (if length projects > 0
      then foldl (\<lambda>acc p. acc + sigma p) 0 projects / real (length projects)
      else INITIAL_SIGMA)"

definition rawConfidence :: "project list \<Rightarrow> real" where
  "rawConfidence projects =
     max 0 ((INITIAL_SIGMA - avgSigma projects) / (INITIAL_SIGMA - 1.0)) * 100"

definition confidence :: "project list \<Rightarrow> real" where
  "confidence projects = min 100 (rawConfidence projects)"

section \<open>The judging page (src/frontend/src/pages/JudgingPage.tsx)\<close>

text \<open>
  \<^verbatim>\<open>const WEIGHTS = { impact: 0.4, technical: 0.3, creativity: 0.2, presentation: 0.1 }\<close>
  and \<^verbatim>\<open>type Criteria = keyof typeof WEIGHTS\<close>. \<^verbatim>\<open>Object.keys(WEIGHTS)\<close> lists the
  keys in the order they are written.
\<close>

datatype criteria = impact | technical | creativity | presentation

fun WEIGHTS :: "criteria \<Rightarrow> real" where
  "WEIGHTS impact = 0.4"
| "WEIGHTS technical = 0.3"
| "WEIGHTS creativity = 0.2"
| "WEIGHTS presentation = 0.1"

definition WEIGHTS_keys :: "criteria list" where
  "WEIGHTS_keys = [impact, technical, creativity, presentation]"

text \<open>
  The part of the component's state that \<^verbatim>\<open>handleCreateVote\<close> reads: the displayed
  pair (\<^verbatim>\<open>PairResponse | null\<close>), the \<^verbatim>\<open>submitting\<close> flag and the four slider scores
  (\<^verbatim>\<open>Record<Criteria, number>\<close>, 0 for left to 100 for right, 50 neutral).
\<close>

record judging =
  pair :: "pairResponse option"
  submitting :: bool
  scores :: "criteria \<Rightarrow> real"

text \<open>
  \<^verbatim>\<open>api.vote(winnerId, loserId)\<close> of src/frontend/src/lib/api.ts posts the body
  \<^verbatim>\<open>{ winner_id: winnerId, loser_id: loserId }\<close> to \<^verbatim>\<open>/vote\<close>. The model of a call is
  the body it posts.
\<close>

record vote_request =
  winner_id :: string
  loser_id :: string

definition api_vote :: "string \<Rightarrow> string \<Rightarrow> vote_request" where
  "api_vote winnerId loserId = \<lparr>winner_id = winnerId, loser_id = loserId\<rparr>"

text \<open>
  \<^verbatim>\<open>
  let weightedSum = 0; let totalWeight = 0;
  (Object.keys(WEIGHTS) as Criteria[]).forEach((criterion) => {
      weightedSum += scores[criterion] * WEIGHTS[criterion];
      totalWeight += WEIGHTS[criterion];
  });
  \<close>
  The loop over the keys, with its two accumulators as a pair.
\<close>

definition weigh :: "(criteria \<Rightarrow> real) \<Rightarrow> real \<times> real" where
  "weigh sc =
     foldl (\<lambda>(weightedSum, totalWeight) criterion.
              (weightedSum + sc criterion * WEIGHTS criterion, totalWeight + WEIGHTS criterion))
       (0, 0) WEIGHTS_keys"

definition finalScore :: "(criteria \<Rightarrow> real) \<Rightarrow> real" where
  "finalScore sc = (case weigh sc of (weightedSum, totalWeight) \<Rightarrow> weightedSum / totalWeight)"

text \<open>
  \<^verbatim>\<open>
  const handleCreateVote = async () => {
      if (!pair || submitting) return;
      ...
      const finalScore = weightedSum / totalWeight;
      const rightWins = finalScore >= 50;
      setSubmitting(true);
      try {
          await api.vote(
              rightWins ? pair.project_b.id : pair.project_a.id, // winner_id
              rightWins ? pair.project_a.id : pair.project_b.id  // loser_id
          );
          fetchPair(true);
      } ...
  \<close>
  The result is the vote request the handler sends: \<open>None\<close> when it returns before
  sending one. The handler is the \<^verbatim>\<open>onClick\<close> of the confirm button, which is disabled
  only while \<^verbatim>\<open>submitting\<close>.
\<close>

definition handleCreateVote :: "judging \<Rightarrow> vote_request option" where
  "handleCreateVote st =
     (case pair st of
        None \<Rightarrow> None
      | Some p \<Rightarrow>
          if submitting st then None
          else
            let rightWins = (finalScore (scores st) \<ge> 50)
            in Some (api_vote
                 (if rightWins then id_p (project_b p) else id_p (project_a p))
                 (if rightWins then id_p (project_a p) else id_p (project_b p))))"

text \<open>
  \<^verbatim>\<open>
  const getWinnerSide = () => {
      let weightedSum = 0;
      (Object.keys(WEIGHTS) as Criteria[]).forEach((c) => {
          weightedSum += scores[c] * WEIGHTS[c];
      });
      if (Math.abs(weightedSum - 50) < 1) return 'neutral';
      return weightedSum > 50 ? 'right' : 'left';
  }
  \<close>
  In exact arithmetic. At a slider setting whose exact sum is 49 or 51, on the edge of
  the neutral band, the program's sum in doubles can fall on the other side of the edge;
  \<open>getWinnerSide_d\<close> below follows the program there.
\<close>

datatype winnerSide = left | right | neutral

definition getWinnerSide :: "(criteria \<Rightarrow> real) \<Rightarrow> winnerSide" where
  "getWinnerSide sc =
     (let weightedSum = foldl (\<lambda>acc c. acc + sc c * WEIGHTS c) 0 WEIGHTS_keys
      in if \<bar>weightedSum - 50\<bar> < 1 then neutral
         else if weightedSum > 50 then right else left)"

section \<open>JavaScript numbers as IEEE doubles\<close>

text \<open>
  A JavaScript \<^verbatim>\<open>number\<close> is an IEEE 754 binary64 value: a finite double, an infinity
  or NaN. A finite double is represented by its real value. The sign of zero is not
  represented; among the operations used here it shows only in a division by zero, and
  the computations modelled here divide by the length of a non-empty list, by a sum of
  positive weights and by a non-zero constant.
\<close>

datatype number = Fin real | PosInf | NegInf | NaN

text \<open>Rounding to the nearest integer, a tie to the even one.\<close>

definition rne :: "real \<Rightarrow> int" where
  "rne q =
     (let f = \<lfloor>q\<rfloor>; d = q - of_int f
      in if d < 1 / 2 then f
         else if 1 / 2 < d then f + 1
         else if even f then f else f + 1)"

text \<open>
  The binary exponent of a positive real \<open>a\<close>: the \<open>e\<close> with \<open>2 powi e \<le> a < 2 powi (e + 1)\<close>,
  found by halving or doubling, and kept between -1022, the exponent of the subnormal
  doubles, and 1024, where every double has overflowed.
\<close>

fun up :: "nat \<Rightarrow> int \<Rightarrow> real \<Rightarrow> int" where
  "up 0 e a = e"
| "up (Suc n) e a = (if a < 2 then e else up n (e + 1) (a / 2))"

fun down :: "nat \<Rightarrow> int \<Rightarrow> real \<Rightarrow> int" where
  "down 0 e a = e"
| "down (Suc n) e a = (if 1 \<le> a then e else down n (e - 1) (a * 2))"

definition binade :: "real \<Rightarrow> int" where
  "binade a = (if 1 \<le> a then up 1024 0 a else down 1022 0 a)"

text \<open>
  The double nearest to a real, ties to the even significand (the rounding of every
  arithmetic operation and of reading a decimal literal): a multiple of the unit in the
  last place, 52 binary digits below the exponent; a result of magnitude \<open>2 powi 1024\<close> or
  more is an infinity.
\<close>

definition round_double :: "real \<Rightarrow> number" where
  "round_double x =
     (if x = 0 then Fin 0
      else
        let u = 2 powi (binade \<bar>x\<bar> - 52);
            r = of_int (rne (x / u)) * u
        in if 2 powi 1024 \<le> \<bar>r\<bar> then (if 0 < x then PosInf else NegInf) else Fin r)"

text \<open>The arithmetic of JavaScript on numbers: \<^verbatim>\<open>-a\<close>, \<^verbatim>\<open>a + b\<close>, \<^verbatim>\<open>a - b\<close>, \<^verbatim>\<open>a * b\<close>, \<^verbatim>\<open>a / b\<close>.\<close>

fun js_neg :: "number \<Rightarrow> number" where
  "js_neg (Fin x) = Fin (- x)"
| "js_neg PosInf = NegInf"
| "js_neg NegInf = PosInf"
| "js_neg NaN = NaN"

fun js_add :: "number \<Rightarrow> number \<Rightarrow> number" where
  "js_add (Fin x) (Fin y) = round_double (x + y)"
| "js_add NaN b = NaN"
| "js_add a NaN = NaN"
| "js_add PosInf NegInf = NaN"
| "js_add NegInf PosInf = NaN"
| "js_add PosInf b = PosInf"
| "js_add a PosInf = PosInf"
| "js_add NegInf b = NegInf"
| "js_add a NegInf = NegInf"

definition js_sub :: "number \<Rightarrow> number \<Rightarrow> number" where
  "js_sub a b = js_add a (js_neg b)"

definition signed_inf :: "bool \<Rightarrow> number" where
  "signed_inf positive = (if positive then PosInf else NegInf)"

fun js_mul :: "number \<Rightarrow> number \<Rightarrow> number" where
  "js_mul (Fin x) (Fin y) = round_double (x * y)"
| "js_mul NaN b = NaN"
| "js_mul a NaN = NaN"
| "js_mul (Fin x) PosInf = (if x = 0 then NaN else signed_inf (0 < x))"
| "js_mul (Fin x) NegInf = (if x = 0 then NaN else signed_inf (x < 0))"
| "js_mul PosInf (Fin y) = (if y = 0 then NaN else signed_inf (0 < y))"
| "js_mul NegInf (Fin y) = (if y = 0 then NaN else signed_inf (y < 0))"
| "js_mul PosInf PosInf = PosInf"
| "js_mul NegInf NegInf = PosInf"
| "js_mul PosInf NegInf = NegInf"
| "js_mul NegInf PosInf = NegInf"

text \<open>A zero divisor is taken as the positive zero.\<close>

fun js_div :: "number \<Rightarrow> number \<Rightarrow> number" where
  "js_div (Fin x) (Fin y) =
     (if y = 0 then (if x = 0 then NaN else signed_inf (0 < x)) else round_double (x / y))"
| "js_div NaN b = NaN"
| "js_div a NaN = NaN"
| "js_div (Fin x) PosInf = Fin 0"
| "js_div (Fin x) NegInf = Fin 0"
| "js_div PosInf (Fin y) = signed_inf (0 \<le> y)"
| "js_div NegInf (Fin y) = signed_inf (y < 0)"
| "js_div a b = NaN"

text \<open>
  The comparisons \<^verbatim>\<open>a <= b\<close> and \<^verbatim>\<open>a < b\<close> (false when an operand is NaN; \<^verbatim>\<open>a >= b\<close> is
  \<open>js_le b a\<close> and \<^verbatim>\<open>a > b\<close> is \<open>js_lt b a\<close>), \<^verbatim>\<open>Math.abs\<close>, and \<^verbatim>\<open>Math.max\<close> and
  \<^verbatim>\<open>Math.min\<close> of two numbers (NaN when an operand is NaN).
\<close>

fun js_le :: "number \<Rightarrow> number \<Rightarrow> bool" where
  "js_le (Fin x) (Fin y) = (x \<le> y)"
| "js_le NaN b = False"
| "js_le a NaN = False"
| "js_le NegInf b = True"
| "js_le a PosInf = True"
| "js_le a b = False"

fun js_lt :: "number \<Rightarrow> number \<Rightarrow> bool" where
  "js_lt (Fin x) (Fin y) = (x < y)"
| "js_lt NaN b = False"
| "js_lt a NaN = False"
| "js_lt PosInf b = False"
| "js_lt a NegInf = False"
| "js_lt a b = True"

fun Math_abs :: "number \<Rightarrow> number" where
  "Math_abs (Fin x) = Fin \<bar>x\<bar>"
| "Math_abs PosInf = PosInf"
| "Math_abs NegInf = PosInf"
| "Math_abs NaN = NaN"

fun Math_max :: "number \<Rightarrow> number \<Rightarrow> number" where
  "Math_max NaN b = NaN"
| "Math_max a NaN = NaN"
| "Math_max a b = (if js_le a b then b else a)"

fun Math_min :: "number \<Rightarrow> number \<Rightarrow> number" where
  "Math_min NaN b = NaN"
| "Math_min a NaN = NaN"
| "Math_min a b = (if js_le a b then a else b)"

subsection \<open>The leaderboard confidence in doubles\<close>

text \<open>
  The computation of \<^verbatim>\<open>LeaderboardPage\<close> once more, every operation now rounding as the
  program's does. The field \<open>sigma\<close> of a project is the number as the response writes it;
  the program holds the double nearest to it. The literal \<^verbatim>\<open>8.333\<close> is the double nearest
  to 8.333, and the length of the list is a whole number, which a double holds exactly.
  The sum runs over the list from left to right, so it depends on the order of the list.
\<close>

definition INITIAL_SIGMA_d :: number where
  "INITIAL_SIGMA_d = round_double 8.333"

definition sigma_d :: "project \<Rightarrow> number" where
  "sigma_d p = round_double (sigma p)"

definition avgSigma_d :: "project list \<Rightarrow> number" where
  "avgSigma_d projects =
     (if length projects > 0
      then js_div (foldl (\<lambda>acc p. js_add acc (sigma_d p)) (Fin 0) projects)
             (Fin (real (length projects)))
      else INITIAL_SIGMA_d)"

definition rawConfidence_d :: "project list \<Rightarrow> number" where
  "rawConfidence_d projects =
     js_mul
       (Math_max (Fin 0)
          (js_div (js_sub INITIAL_SIGMA_d (avgSigma_d projects)) (js_sub INITIAL_SIGMA_d (Fin 1.0))))
       (Fin 100)"

definition confidence_d :: "project list \<Rightarrow> number" where
  "confidence_d projects = Math_min (Fin 100) (rawConfidence_d projects)"

subsection \<open>The vote handler in doubles\<close>

text \<open>
  \<^verbatim>\<open>handleCreateVote\<close> and \<^verbatim>\<open>getWinnerSide\<close> once more with the program's rounding: the
  weights are the doubles nearest to 0.4, 0.3, 0.2 and 0.1, and the scores the doubles of
  the slider values.
\<close>

definition WEIGHTS_d :: "criteria \<Rightarrow> number" where
  "WEIGHTS_d c = round_double (WEIGHTS c)"

definition scores_d :: "(criteria \<Rightarrow> real) \<Rightarrow> criteria \<Rightarrow> number" where
  "scores_d sc c = round_double (sc c)"

definition weigh_d :: "(criteria \<Rightarrow> real) \<Rightarrow> number \<times> number" where
  "weigh_d sc =
     foldl (\<lambda>(weightedSum, totalWeight) criterion.
              (js_add weightedSum (js_mul (scores_d sc criterion) (WEIGHTS_d criterion)),
               js_add totalWeight (WEIGHTS_d criterion)))
       (Fin 0, Fin 0) WEIGHTS_keys"

definition finalScore_d :: "(criteria \<Rightarrow> real) \<Rightarrow> number" where
  "finalScore_d sc = (case weigh_d sc of (weightedSum, totalWeight) \<Rightarrow> js_div weightedSum totalWeight)"

definition handleCreateVote_d :: "judging \<Rightarrow> vote_request option" where
  "handleCreateVote_d st =
     (case pair st of
        None \<Rightarrow> None
      | Some p \<Rightarrow>
          if submitting st then None
          else
            let rightWins = js_le (Fin 50) (finalScore_d (scores st))
            in Some (api_vote
                 (if rightWins then id_p (project_b p) else id_p (project_a p))
                 (if rightWins then id_p (project_a p) else id_p (project_b p))))"

definition getWinnerSide_d :: "(criteria \<Rightarrow> real) \<Rightarrow> winnerSide" where
  "getWinnerSide_d sc =
     (let weightedSum =
            foldl (\<lambda>acc c. js_add acc (js_mul (scores_d sc c) (WEIGHTS_d c))) (Fin 0) WEIGHTS_keys
      in if js_lt (Math_abs (js_sub weightedSum (Fin 50))) (Fin 1) then neutral
         else if js_lt (Fin 50) weightedSum then right else left)"

subsection \<open>The magnitude of a rounded value\<close>

text \<open>
  The unit in the last place at a positive real, and the real that rounding a positive
  real gives before the test for overflow. They serve the proof that rounding is monotone.
\<close>

definition ulp :: "real \<Rightarrow> real" where
  "ulp a = 2 powi (binade a - 52)"

definition round_pos :: "real \<Rightarrow> real" where
  "round_pos a = of_int (rne (a / ulp a)) * ulp a"

section \<open>The persisted pair cache (src/frontend/src/pages/JudgingPage.tsx, lines 46 to 53)\<close>

text \<open>
  The values \<^verbatim>\<open>JSON.parse\<close> can return. A number keeps its lexeme (its value is the
  double nearest to it), a string is its list of code units, an object is its properties
  in the order in which their keys first occur in the text (the order in which a program
  enumerates keys that look like array indices is not represented).
\<close>

datatype json =
    JNull
  | JBool bool
  | JNumber string
  | JString "nat list"
  | JArray "json list"
  | JObject "(nat list \<times> json) list"

datatype js_error = SyntaxError

text \<open>
  \<^verbatim>\<open>
  const [categoryPairs, setCategoryPairs] = useState<Record<string, PairResponse>>(() => {
      const saved = localStorage.getItem('duel_state');
      try {
          return saved ? JSON.parse(saved) : {};
      } catch {
          return {};
      }
  });
  \<close>
  The browser's storage is a map from keys to strings, \<^verbatim>\<open>getItem\<close> of a missing key is
  \<^verbatim>\<open>null\<close>; \<^verbatim>\<open>null\<close> and the empty string are falsy. \<^verbatim>\<open>JSON.parse\<close> is a function of
  the platform that returns a value or throws: it is the parameter \<open>parse\<close>, so that what
  is proved of the initializer holds whatever the platform's parser does. An exception is
  \<open>Inl\<close>; the \<^verbatim>\<open>catch\<close> turns it into the empty object.
\<close>

definition categoryPairs_init ::
  "(string \<Rightarrow> js_error + json) \<Rightarrow> (string \<rightharpoonup> string) \<Rightarrow> js_error + json" where
  "categoryPairs_init parse localStorage =
     (let saved = localStorage ''duel_state''
      in case (case saved of
                 None \<Rightarrow> Inr (JObject [])
               | Some stored \<Rightarrow> if stored = [] then Inr (JObject []) else parse stored) of
           Inl _ \<Rightarrow> Inr (JObject [])
         | Inr v \<Rightarrow> Inr v)"

text \<open>
  A cache is a \<^verbatim>\<open>Record<string, PairResponse>\<close>: at least an object. The component reads
  it with \<^verbatim>\<open>categoryPairs[filterCategory]\<close>.
\<close>

definition is_cache_object :: "json \<Rightarrow> bool" where
  "is_cache_object v = (case v of JObject _ \<Rightarrow> True | _ \<Rightarrow> False)"

subsection \<open>The JSON grammar\<close>

text \<open>
  A model of \<^verbatim>\<open>JSON.parse\<close> without a reviver, after the JSON grammar of ECMA-404 that
  ECMAScript prescribes for it, on texts whose code units are below 256. It is used to
  run the initializer on concrete stored texts. The three mutually recursive parsers take
  fuel, one unit for every call; \<open>JSON_parse\<close> gives twice the length of the text plus
  two, and lemma \<open>JSON_parse_fuel\<close> below shows that no text needs more.
\<close>

definition is_ws :: "char \<Rightarrow> bool" where
  "is_ws c = (c = CHR 0x20 \<or> c = CHR 0x09 \<or> c = CHR 0x0A \<or> c = CHR 0x0D)"

definition skip_ws :: "string \<Rightarrow> string" where
  "skip_ws s = dropWhile is_ws s"

definition is_digit :: "char \<Rightarrow> bool" where
  "is_digit c = (48 \<le> (of_char c :: nat) \<and> (of_char c :: nat) \<le> 57)"

definition starts_with :: "char \<Rightarrow> string \<Rightarrow> bool" where
  "starts_with c s = (case s of [] \<Rightarrow> False | d # _ \<Rightarrow> d = c)"

definition parse_literal :: "string \<Rightarrow> json \<Rightarrow> string \<Rightarrow> (json \<times> string) option" where
  "parse_literal word v s =
     (if take (length word) s = word then Some (v, drop (length word) s) else None)"

definition hex_value :: "char \<Rightarrow> nat option" where
  "hex_value c =
     (let k = (of_char c :: nat)
      in if 48 \<le> k \<and> k \<le> 57 then Some (k - 48)
         else if 65 \<le> k \<and> k \<le> 70 then Some (k - 55)
         else if 97 \<le> k \<and> k \<le> 102 then Some (k - 87)
         else None)"

definition hex4 :: "char \<Rightarrow> char \<Rightarrow> char \<Rightarrow> char \<Rightarrow> nat option" where
  "hex4 a b c d =
     (case (hex_value a, hex_value b, hex_value c, hex_value d) of
        (Some p, Some q, Some r, Some s) \<Rightarrow> Some (((p * 16 + q) * 16 + r) * 16 + s)
      | _ \<Rightarrow> None)"

definition escape :: "char \<Rightarrow> nat option" where
  "escape e =
     (if e = CHR 0x22 then Some 0x22
      else if e = CHR 0x5C then Some 0x5C
      else if e = CHR ''/'' then Some 0x2F
      else if e = CHR ''b'' then Some 0x08
      else if e = CHR ''f'' then Some 0x0C
      else if e = CHR ''n'' then Some 0x0A
      else if e = CHR ''r'' then Some 0x0D
      else if e = CHR ''t'' then Some 0x09
      else None)"

definition cons_unit :: "nat \<Rightarrow> (nat list \<times> string) option \<Rightarrow> (nat list \<times> string) option" where
  "cons_unit u r = map_option (\<lambda>(us, rest). (u # us, rest)) r"

text \<open>The characters of a string after its opening quote, up to the closing one.\<close>

fun parse_chars :: "string \<Rightarrow> (nat list \<times> string) option" where
  "parse_chars [] = None"
| "parse_chars (c # cs) =
     (if c = CHR 0x22 then Some ([], cs)
      else if c = CHR 0x5C then
        (case cs of
           [] \<Rightarrow> None
         | e # es \<Rightarrow>
             if e = CHR ''u'' then
               (case es of
                  h1 # h2 # h3 # h4 # rest \<Rightarrow>
                    (case hex4 h1 h2 h3 h4 of
                       None \<Rightarrow> None
                     | Some u \<Rightarrow> cons_unit u (parse_chars rest))
                | _ \<Rightarrow> None)
             else
               (case escape e of
                  None \<Rightarrow> None
                | Some u \<Rightarrow> cons_unit u (parse_chars es)))
      else if (of_char c :: nat) < 0x20 then None
      else cons_unit (of_char c) (parse_chars cs))"

text \<open>
  A number: an optional minus, an integer part (a single zero, or digits that do not start
  with zero), an optional fraction, an optional exponent. A zero followed by a digit is
  left for the caller to reject, as no value may be followed by a digit.
\<close>

definition digits1 :: "string \<Rightarrow> (string \<times> string) option" where
  "digits1 s =
     (if takeWhile is_digit s = [] then None
      else Some (takeWhile is_digit s, dropWhile is_digit s))"

definition parse_int :: "string \<Rightarrow> (string \<times> string) option" where
  "parse_int s = (if starts_with CHR ''0'' s then Some (''0'', tl s) else digits1 s)"

definition parse_frac :: "string \<Rightarrow> (string \<times> string) option" where
  "parse_frac s =
     (if starts_with CHR ''.'' s
      then map_option (\<lambda>(ds, rest). (CHR ''.'' # ds, rest)) (digits1 (tl s))
      else Some ([], s))"

definition parse_exp :: "string \<Rightarrow> (string \<times> string) option" where
  "parse_exp s =
     (if starts_with CHR ''e'' s \<or> starts_with CHR ''E'' s then
        (let t = tl s
         in if starts_with CHR ''+'' t \<or> starts_with CHR ''-'' t
            then map_option (\<lambda>(ds, rest). (hd s # hd t # ds, rest)) (digits1 (tl t))
            else map_option (\<lambda>(ds, rest). (hd s # ds, rest)) (digits1 t))
      else Some ([], s))"

definition parse_number :: "string \<Rightarrow> (string \<times> string) option" where
  "parse_number s =
     (let (sign, s0) = (if starts_with CHR ''-'' s then (''-'', tl s) else ([], s))
      in case parse_int s0 of
           None \<Rightarrow> None
         | Some (ip, s1) \<Rightarrow>
             (case parse_frac s1 of
                None \<Rightarrow> None
              | Some (fp, s2) \<Rightarrow>
                  (case parse_exp s2 of
                     None \<Rightarrow> None
                   | Some (ep, s3) \<Rightarrow> Some (sign @ ip @ fp @ ep, s3))))"

text \<open>
  An object is built from the members of the text by defining one property after the
  other: a key that occurs again keeps its place and takes the later value.
\<close>

fun put_member :: "nat list \<Rightarrow> json \<Rightarrow> (nat list \<times> json) list \<Rightarrow> (nat list \<times> json) list" where
  "put_member k v [] = [(k, v)]"
| "put_member k v (p # ps) = (if fst p = k then (k, v) # ps else p # put_member k v ps)"

definition object_of_members :: "(nat list \<times> json) list \<Rightarrow> (nat list \<times> json) list" where
  "object_of_members ms = foldl (\<lambda>props (k, v). put_member k v props) [] ms"

text \<open>
  A value, the elements of an array after its bracket, and the members of an object after
  its brace. Each returns what it read and the rest of the text, or \<open>None\<close> where the
  platform's parser throws.
\<close>

fun parse_value :: "nat \<Rightarrow> string \<Rightarrow> (json \<times> string) option"
  and parse_elements :: "nat \<Rightarrow> string \<Rightarrow> (json list \<times> string) option"
  and parse_members :: "nat \<Rightarrow> string \<Rightarrow> ((nat list \<times> json) list \<times> string) option"
where
  "parse_value 0 s = None"
| "parse_value (Suc n) s =
     (if starts_with CHR ''n'' s then parse_literal ''null'' JNull s
      else if starts_with CHR ''t'' s then parse_literal ''true'' (JBool True) s
      else if starts_with CHR ''f'' s then parse_literal ''false'' (JBool False) s
      else if starts_with CHR 0x22 s then
        map_option (\<lambda>(us, rest). (JString us, rest)) (parse_chars (tl s))
      else if starts_with CHR ''['' s then
        (if starts_with CHR '']'' (skip_ws (tl s)) then Some (JArray [], tl (skip_ws (tl s)))
         else map_option (\<lambda>(vs, rest). (JArray vs, rest)) (parse_elements n (skip_ws (tl s))))
      else if starts_with CHR ''{'' s then
        (if starts_with CHR ''}'' (skip_ws (tl s)) then Some (JObject [], tl (skip_ws (tl s)))
         else map_option (\<lambda>(ms, rest). (JObject (object_of_members ms), rest))
                (parse_members n (skip_ws (tl s))))
      else map_option (\<lambda>(l, rest). (JNumber l, rest)) (parse_number s))"
| "parse_elements 0 s = None"
| "parse_elements (Suc n) s =
     (case parse_value n s of
        None \<Rightarrow> None
      | Some (v, r) \<Rightarrow>
          if starts_with CHR '','' (skip_ws r) then
            map_option (\<lambda>(vs, rest). (v # vs, rest)) (parse_elements n (skip_ws (tl (skip_ws r))))
          else if starts_with CHR '']'' (skip_ws r) then Some ([v], tl (skip_ws r))
          else None)"
| "parse_members 0 s = None"
| "parse_members (Suc n) s =
     (if starts_with CHR 0x22 s then
        (case parse_chars (tl s) of
           None \<Rightarrow> None
         | Some (k, r) \<Rightarrow>
             if starts_with CHR '':'' (skip_ws r) then
               (case parse_value n (skip_ws (tl (skip_ws r))) of
                  None \<Rightarrow> None
                | Some (v, r') \<Rightarrow>
                    if starts_with CHR '','' (skip_ws r') then
                      map_option (\<lambda>(ms, rest). ((k, v) # ms, rest))
                        (parse_members n (skip_ws (tl (skip_ws r'))))
                    else if starts_with CHR ''}'' (skip_ws r') then Some ([(k, v)], tl (skip_ws r'))
                    else None)
             else None)
      else None)"

definition JSON_parse :: "string \<Rightarrow> js_error + json" where
  "JSON_parse input =
     (case parse_value (2 * length input + 2) (skip_ws input) of
        None \<Rightarrow> Inl SyntaxError
      | Some (v, rest) \<Rightarrow> if skip_ws rest = [] then Inr v else Inl SyntaxError)"

text \<open>
  What it means that fuel \<open>n\<close> is never the reason a parser fails: a result obtained
  with fuel \<open>n\<close> has consumed some of the text, and any fuel of at least twice the
  consumed length (less one for a value, less two for elements and members) gives the
  same result.
\<close>

definition value_fuel_ok :: "nat \<Rightarrow> bool" where
  "value_fuel_ok n =
     (\<forall>s v r. parse_value n s = Some (v, r) \<longrightarrow>
        length r < length s \<and>
        (\<forall>m. 2 * length s \<le> m + 1 + 2 * length r \<longrightarrow> parse_value m s = Some (v, r)))"

definition elements_fuel_ok :: "nat \<Rightarrow> bool" where
  "elements_fuel_ok n =
     (\<forall>s vs r. parse_elements n s = Some (vs, r) \<longrightarrow>
        length r + 2 \<le> length s \<and>
        (\<forall>m. 2 * length s \<le> m + 2 + 2 * length r \<longrightarrow> parse_elements m s = Some (vs, r)))"

definition members_fuel_ok :: "nat \<Rightarrow> bool" where
  "members_fuel_ok n =
     (\<forall>s ms r. parse_members n s = Some (ms, r) \<longrightarrow>
        length r + 2 \<le> length s \<and>
        (\<forall>m. 2 * length s \<le> m + 2 + 2 * length r \<longrightarrow> parse_members m s = Some (ms, r)))"

section \<open>The rating and matchmaking engine, from the specification\<close>

text \<open>
  The frontend calls the engine through \<^verbatim>\<open>api.getNextPair\<close>, \<^verbatim>\<open>api.getLeaderboard\<close>
  and \<^verbatim>\<open>api.ignoreProject\<close>; the engine's own code (the backend directory) is not among
  the sources. Its store, leaderboard and pair selector are therefore written from the
  specification's sections 3, 4.1, 4.3, 4.5 and 4.6.
\<close>

text \<open>
  Modelled from the spec: the Entry of section 3, whose code is missing. An entry is what
  the frontend receives as a \<^verbatim>\<open>Project\<close> (id, category, mu, sigma and the descriptive
  fields) with its lifecycle status, \<open>Active\<close> or \<open>Archived\<close>.
\<close>

datatype status = Active | Archived

record entry = project +
  status :: status

text \<open>
  Modelled from the spec: the Entry Store of section 4.1, whose code is missing. The store
  holds the entries in a list; that every id maps to exactly one entry is the invariant
  \<open>distinct (map id_p store)\<close>, stated where it is needed.
\<close>

type_synonym entry_store = "entry list"

text \<open>Modelled from the spec: the error taxonomy of section 7 and \<open>Conflict\<close> of section 4.1.\<close>

datatype engine_error = NotFound | InvalidEntry | EmptyPool | PersistenceUnavailable | Conflict

text \<open>Modelled from the spec: \<^verbatim>\<open>get(id) -> Entry | NotFound\<close> of section 4.1.\<close>

definition get :: "entry_store \<Rightarrow> string \<Rightarrow> engine_error + entry" where
  "get store i = (case find (\<lambda>e. id_p e = i) store of None \<Rightarrow> Inl NotFound | Some e \<Rightarrow> Inr e)"

text \<open>
  Modelled from the spec: the optional category of a scope (section 4.3, item 1): the
  entries of the requested category, or every entry when no category is given.
\<close>

definition in_scope :: "string option \<Rightarrow> entry \<Rightarrow> bool" where
  "in_scope cat e = (case cat of None \<Rightarrow> True | Some c \<Rightarrow> category e = c)"

text \<open>Modelled from the spec: \<^verbatim>\<open>listActive(category?)\<close> of section 4.1.\<close>

definition listActive :: "entry_store \<Rightarrow> string option \<Rightarrow> entry list" where
  "listActive store cat = filter (\<lambda>e. status e = Active \<and> in_scope cat e) store"

text \<open>
  Modelled from the spec: \<^verbatim>\<open>commit(id, newMu, newSigma)\<close> of section 4.1, one request at a
  time (a \<open>Conflict\<close> needs two concurrent commits). It writes mu and sigma and nothing
  else.
\<close>

definition commit :: "entry_store \<Rightarrow> string \<Rightarrow> real \<Rightarrow> real \<Rightarrow> entry_store" where
  "commit store i newMu newSigma =
     map (\<lambda>e. if id_p e = i then e\<lparr>mu := newMu, sigma := newSigma\<rparr> else e) store"

text \<open>
  Modelled from the spec: the Archive Lifecycle Manager of section 4.6,
  \<^verbatim>\<open>setStatus(id, Archived) -> success | NotFound\<close>: it fails with \<open>NotFound\<close> on an unknown
  id and otherwise sets the status, also of an entry that is archived already.
\<close>

definition archive :: "entry_store \<Rightarrow> string \<Rightarrow> engine_error + entry_store" where
  "archive store i =
     (case get store i of
        Inl err \<Rightarrow> Inl err
      | Inr _ \<Rightarrow> Inr (map (\<lambda>e. if id_p e = i then e\<lparr>status := Archived\<rparr> else e) store))"

text \<open>
  Modelled from the spec: \<^verbatim>\<open>snapshot(category?)\<close> of section 4.5, the active entries in
  scope sorted by mu descending, ties broken by id. The sort key is the pair of the
  negated mu and the id, ordered lexicographically.
\<close>

definition rank_key :: "entry \<Rightarrow> real \<times> string" where
  "rank_key e = (- mu e, id_p e)"

definition snapshot :: "entry_store \<Rightarrow> string option \<Rightarrow> entry list" where
  "snapshot store cat = sort_key rank_key (listActive store cat)"

text \<open>
  Modelled from the spec: \<^verbatim>\<open>nextPair(category?, excludeRecentFor?)\<close> of section 4.3. The
  candidates are the pairs of two entries at different positions of the active pool in
  scope. Pairs already shown to the session (\<open>recent\<close>, in either order) are avoided until
  no other pair is left. Among the eligible pairs the one of least cost is returned; the
  cost of a pair (closeness of mu, weighted by sigma) is a parameter, as section 9 of the
  specification leaves the formula open. With no candidate the result is \<open>EmptyPool\<close>.
\<close>

fun pairs_of :: "'a list \<Rightarrow> ('a \<times> 'a) list" where
  "pairs_of [] = []"
| "pairs_of (x # xs) = map (Pair x) xs @ pairs_of xs"

definition shown :: "(string \<times> string) list \<Rightarrow> entry \<times> entry \<Rightarrow> bool" where
  "shown recent p =
     ((id_p (fst p), id_p (snd p)) \<in> set recent \<or> (id_p (snd p), id_p (fst p)) \<in> set recent)"

fun best :: "('a \<Rightarrow> real) \<Rightarrow> 'a \<Rightarrow> 'a list \<Rightarrow> 'a" where
  "best cost b [] = b"
| "best cost b (x # xs) = best cost (if cost x < cost b then x else b) xs"

definition eligible ::
  "(string \<times> string) list \<Rightarrow> entry_store \<Rightarrow> string option \<Rightarrow> (entry \<times> entry) list" where
  "eligible recent store cat =
     (let candidates = pairs_of (listActive store cat);
          fresh = filter (\<lambda>p. \<not> shown recent p) candidates
      in if fresh = [] then candidates else fresh)"

definition nextPair ::
  "(entry \<Rightarrow> entry \<Rightarrow> real) \<Rightarrow> (string \<times> string) list \<Rightarrow> entry_store \<Rightarrow> string option
     \<Rightarrow> engine_error + string \<times> string" where
  "nextPair cost recent store cat =
     (case eligible recent store cat of
        [] \<Rightarrow> Inl EmptyPool
      | p # ps \<Rightarrow>
          (case best (\<lambda>(a, b). cost a b) p ps of (a, b) \<Rightarrow> Inr (id_p a, id_p b)))"

text \<open>
  Modelled from the spec: what may happen to the store between two reads (section 3,
  lifecycle): a rating commit or an archive request. A rejected request leaves the store
  as it is.
\<close>

datatype store_op = Commit string real real | Archive string

fun apply_op :: "entry_store \<Rightarrow> store_op \<Rightarrow> entry_store" where
  "apply_op store (Commit i m s) = commit store i m s"
| "apply_op store (Archive i) = (case archive store i of Inl _ \<Rightarrow> store | Inr store' \<Rightarrow> store')"

definition run :: "entry_store \<Rightarrow> store_op list \<Rightarrow> entry_store" where
  "run store ops = foldl apply_op store ops"

section \<open>The specification's formulas and predicates\<close>


definition mean :: "real list \<Rightarrow> real" where
  "mean xs = sum_list xs / real (length xs)"


text \<open>
  The order of a leaderboard: \<open>a\<close> may stand before \<open>b\<close> when its mu is larger, or the
  mus are equal and its id is not larger.
\<close>

definition ranks_before :: "entry \<Rightarrow> entry \<Rightarrow> bool" where
  "ranks_before a b = (mu a > mu b \<or> (mu a = mu b \<and> id_p a \<le> id_p b))"

text \<open>Every entry of the store with id \<open>i\<close> is archived.\<close>

definition archived_in :: "string \<Rightarrow> entry_store \<Rightarrow> bool" where
  "archived_in i store = (\<forall>e \<in> set store. id_p e = i \<longrightarrow> status e = Archived)"

section \<open>Concrete inputs\<close>

definition proj :: "string \<Rightarrow> string \<Rightarrow> real \<Rightarrow> real \<Rightarrow> project" where
  "proj i c m s =
     \<lparr>id_p = i, title = i, category = c, subtitle = None, description = [],
      team_name = None, writeup_url = None, video_url = None, project_links = None,
      mu = m, sigma = s\<rparr>"

definition ent :: "string \<Rightarrow> string \<Rightarrow> real \<Rightarrow> real \<Rightarrow> status \<Rightarrow> entry" where
  "ent i c m s st =
     \<lparr>id_p = i, title = i, category = c, subtitle = None, description = [],
      team_name = None, writeup_url = None, video_url = None, project_links = None,
      mu = m, sigma = s, status = st\<rparr>"

text \<open>The judging page showing the projects a and b, every slider at its initial 50.\<close>

definition draw_state :: judging where
  "draw_state =
     \<lparr>pair = Some \<lparr>project_a = proj ''a'' ''Science'' 25 8.333,
                    project_b = proj ''b'' ''Science'' 25 8.333\<rparr>,
      submitting = False,
      scores = (\<lambda>_. 50)\<rparr>"

text \<open>The same page with every slider at 20, towards the left project.\<close>

definition left_state :: judging where
  "left_state = draw_state\<lparr>scores := (\<lambda>_. 20)\<rparr>"

text \<open>Two stores of three entries, before and after archiving b.\<close>

definition store3 :: entry_store where
  "store3 =
     [ent ''a'' ''Science'' 25 8.333 Active,
      ent ''b'' ''Science'' 27 6 Active,
      ent ''c'' ''Health'' 27 5 Active]"

definition store3_archived :: entry_store where
  "store3_archived =
     [ent ''a'' ''Science'' 25 8.333 Active,
      ent ''b'' ''Science'' 27 6 Archived,
      ent ''c'' ''Health'' 27 5 Active]"

text \<open>Two leaderboards of the same three projects, with sigmas 1, 3.6 and 1.1, in two orders.\<close>

definition ps9 :: "project list" where
  "ps9 = [proj ''a'' ''Science'' 25 1, proj ''b'' ''Science'' 25 3.6, proj ''c'' ''Science'' 25 1.1]"

definition qs9 :: "project list" where
  "qs9 = [proj ''a'' ''Science'' 25 1, proj ''c'' ''Science'' 25 1.1, proj ''b'' ''Science'' 25 3.6]"

definition mu_gap :: "entry \<Rightarrow> entry \<Rightarrow> real" where
  "mu_gap a b = \<bar>mu a - mu b\<bar>"

section \<open>Properties of the leaderboard confidence\<close>

lemma rawConfidence_nonneg: "0 \<le> rawConfidence projects"
  by (simp add: rawConfidence_def)

lemma avgSigma_Nil: "avgSigma [] = INITIAL_SIGMA"
  by (simp add: avgSigma_def)

lemma rawConfidence_Nil: "rawConfidence [] = 0"
  by (simp add: rawConfidence_def avgSigma_Nil)

text \<open>
  Claim C3. For every list of listed entries, the empty list included, the confidence the
  leaderboard page computes lies in the closed interval from 0 to 100, and for the empty
  list it is 0.
\<close>

theorem confidence_range:
  "0 \<le> confidence projects \<and> confidence projects \<le> 100 \<and> confidence [] = 0"
proof -
  have "0 \<le> confidence projects"
    using rawConfidence_nonneg [of projects] by (simp add: confidence_def)
  moreover have "confidence projects \<le> 100"
    by (simp add: confidence_def)
  moreover have "confidence [] = 0"
    by (simp add: confidence_def rawConfidence_Nil)
  ultimately show ?thesis by simp
qed




lemma sigma_proj: "sigma (proj i c m s) = s"
  by (simp add: proj_def)

lemma id_p_proj: "id_p (proj i c m s) = i"
  by (simp add: proj_def)



text \<open>In exact arithmetic the confidence does not increase with \<open>avgSigma\<close>.\<close>

lemma confidence_antimono_avg:
  assumes "avgSigma qs \<le> avgSigma ps"
  shows "confidence ps \<le> confidence qs"
proof -
  have pos: "0 < INITIAL_SIGMA - 1.0" by (simp add: INITIAL_SIGMA_def)
  have "(INITIAL_SIGMA - avgSigma ps) / (INITIAL_SIGMA - 1.0)
          \<le> (INITIAL_SIGMA - avgSigma qs) / (INITIAL_SIGMA - 1.0)"
    using assms pos by (simp add: divide_right_mono)
  then have "rawConfidence ps \<le> rawConfidence qs"
    unfolding rawConfidence_def by (intro mult_right_mono max.mono) simp_all
  then show ?thesis unfolding confidence_def by (intro min.mono) simp_all
qed

section \<open>Properties of rounding to doubles\<close>

lemma rne_floor: "rne q = \<lfloor>q\<rfloor> \<or> rne q = \<lfloor>q\<rfloor> + 1"
  by (simp add: rne_def Let_def)

lemma rne_of_int: "rne (of_int k) = k"
  by (simp add: rne_def Let_def)

lemma rne_mono:
  assumes "q \<le> q'"
  shows "rne q \<le> rne q'"
proof (cases "\<lfloor>q\<rfloor> = \<lfloor>q'\<rfloor>")
  case False
  with assms have "\<lfloor>q\<rfloor> < \<lfloor>q'\<rfloor>" by (simp add: floor_mono order.strict_iff_order)
  with rne_floor [of q] rne_floor [of q'] show ?thesis by linarith
next
  case True
  with assms have "q - of_int \<lfloor>q\<rfloor> \<le> q' - of_int \<lfloor>q'\<rfloor>" by simp
  with True show ?thesis by (simp add: rne_def Let_def)
qed

lemma rne_minus: "rne (- q) = - rne q"
proof (cases "q = of_int \<lfloor>q\<rfloor>")
  case True
  then obtain k where "q = of_int k" ..
  then have "- q = of_int (- k)" by simp
  with \<open>q = of_int k\<close> show ?thesis by (simp only: rne_of_int)
next
  case False
  then have lt: "of_int \<lfloor>q\<rfloor> < q" using of_int_floor_le [of q] by linarith
  have f: "\<lfloor>- q\<rfloor> = - \<lfloor>q\<rfloor> - 1"
  proof (rule floor_unique)
    show "of_int (- \<lfloor>q\<rfloor> - 1) \<le> - q" by simp linarith
    show "- q < of_int (- \<lfloor>q\<rfloor> - 1) + 1" using lt by simp
  qed
  then show ?thesis by (auto simp: rne_def Let_def)
qed


lemma two_powi_Suc: "(2::real) powi (k + 1) = 2 * 2 powi k"
  by (simp add: power_int_add)

lemma powi_double_le: "2 powi k \<le> a / 2 \<Longrightarrow> 2 powi (k + 1) \<le> (a::real)"
  by (simp add: two_powi_Suc)

lemma powi_double_less: "a / 2 < 2 powi k \<Longrightarrow> (a::real) < 2 powi (k + 1)"
  by (simp add: two_powi_Suc)

lemma powi_half_less: "a * 2 < 2 powi (k + 1) \<Longrightarrow> (a::real) < 2 powi k"
  by (simp add: two_powi_Suc)

lemma powi_half_le: "2 powi (k + 1) \<le> a * 2 \<Longrightarrow> 2 powi k \<le> (a::real)"
  by (simp add: two_powi_Suc)

lemma up_spec:
  assumes "1 \<le> a"
  shows "e \<le> up n e a \<and> up n e a \<le> e + int n \<and> 2 powi (up n e a - e) \<le> a \<and>
         (up n e a < e + int n \<longrightarrow> a < 2 powi (up n e a - e + 1))"
  using assms
proof (induction n arbitrary: e a)
  case 0
  then show ?case by simp
next
  case (Suc n)
  show ?case
  proof (cases "a < 2")
    case True
    with Suc.prems show ?thesis by simp
  next
    case False
    then have h: "1 \<le> a / 2" by simp
    define r where "r = up n (e + 1) (a / 2)"
    define k where "k = r - (e + 1)"
    from Suc.IH [OF h, of "e + 1"] have
      1: "e + 1 \<le> r" and 2: "r \<le> e + 1 + int n" and 3: "2 powi k \<le> a / 2"
      and 4: "r < e + 1 + int n \<longrightarrow> a / 2 < 2 powi (k + 1)"
      unfolding r_def k_def by blast+
    have k: "r - e = k + 1" by (simp add: k_def)
    have b3: "2 powi (r - e) \<le> a"
      unfolding k using 3 by (rule powi_double_le)
    have b4: "a < 2 powi (r - e + 1)" if "r < e + 1 + int n"
    proof -
      from that 4 have "a / 2 < 2 powi (k + 1)" by blast
      then show ?thesis unfolding k by (rule powi_double_less)
    qed
    have "up (Suc n) e a = r" using False by (simp add: r_def)
    with 1 2 b3 b4 show ?thesis by simp
  qed
qed

lemma down_spec:
  assumes "0 < a" and "a < 2"
  shows "e - int n \<le> down n e a \<and> down n e a \<le> e \<and> a < 2 powi (down n e a - e + 1) \<and>
         (e - int n < down n e a \<longrightarrow> 2 powi (down n e a - e) \<le> a)"
  using assms
proof (induction n arbitrary: e a)
  case 0
  then show ?case by simp
next
  case (Suc n)
  show ?case
  proof (cases "1 \<le> a")
    case True
    with Suc.prems show ?thesis by simp
  next
    case False
    then have h: "0 < a * 2" "a * 2 < 2" using Suc.prems by simp_all
    define r where "r = down n (e - 1) (a * 2)"
    define k where "k = r - e"
    have k1: "r - (e - 1) = k + 1" by (simp add: k_def)
    from Suc.IH [OF h, of "e - 1"] have
      1: "e - 1 - int n \<le> r" and 2: "r \<le> e - 1" and 3: "a * 2 < 2 powi (k + 1 + 1)"
      and 4: "e - 1 - int n < r \<longrightarrow> 2 powi (k + 1) \<le> a * 2"
      unfolding r_def [symmetric] k1 by blast+
    have b3: "a < 2 powi (r - e + 1)"
      unfolding k_def [symmetric] using 3 by (rule powi_half_less)
    have b4: "2 powi (r - e) \<le> a" if "e - 1 - int n < r"
    proof -
      from that 4 have "2 powi (k + 1) \<le> a * 2" by blast
      then show ?thesis unfolding k_def [symmetric] by (rule powi_half_le)
    qed
    have "down (Suc n) e a = r" using False by (simp add: r_def)
    with 1 2 b3 b4 show ?thesis by simp
  qed
qed

lemma binade_spec:
  assumes "0 < a"
  shows "- 1022 \<le> binade a \<and> binade a \<le> 1024 \<and>
         (binade a < 1024 \<longrightarrow> a < 2 powi (binade a + 1)) \<and>
         (- 1022 < binade a \<longrightarrow> 2 powi (binade a) \<le> a)"
proof (cases "1 \<le> a")
  case True
  from up_spec [OF True, of 0 1024] True show ?thesis by (simp add: binade_def)
next
  case False
  with assms have "a < 2" by simp
  from down_spec [OF assms this, of 0 1022] False show ?thesis by (simp add: binade_def)
qed

lemma binade_mono:
  assumes "0 < a" and "a \<le> b"
  shows "binade a \<le> binade b"
proof (rule ccontr)
  assume "\<not> binade a \<le> binade b"
  then have lt: "binade b < binade a" by simp
  from assms have b: "0 < b" by simp
  from binade_spec [OF assms(1)] binade_spec [OF b] lt
  have 1: "2 powi (binade a) \<le> a" and 2: "b < 2 powi (binade b + 1)" by linarith+
  from lt have "(2::real) powi (binade b + 1) \<le> 2 powi (binade a)"
    by (intro power_int_increasing) simp_all
  with 1 2 assms(2) show False by linarith
qed


lemma ulp_pos: "0 < ulp a"
  by (simp add: ulp_def)

lemma powi_shift: "(2::real) powi (k + int n) = 2 ^ n * 2 powi k"
  by (simp add: power_int_add)

lemma ulp_top: "2 powi (binade a + 1) = of_int (2 ^ 53) * ulp a"
proof -
  have "(2::real) powi (binade a + 1) = 2 powi ((binade a - 52) + int 53)"
    by (rule arg_cong [where f = "\<lambda>k. 2 powi k"]) simp
  also have "\<dots> = 2 ^ 53 * 2 powi (binade a - 52)"
    by (rule powi_shift)
  also have "\<dots> = of_int (2 ^ 53) * ulp a"
    by (simp add: ulp_def)
  finally show ?thesis .
qed

lemma ulp_bot: "2 powi (binade a) = of_int (2 ^ 52) * ulp a"
proof -
  have "(2::real) powi (binade a) = 2 powi ((binade a - 52) + int 52)"
    by (rule arg_cong [where f = "\<lambda>k. 2 powi k"]) simp
  also have "\<dots> = 2 ^ 52 * 2 powi (binade a - 52)"
    by (rule powi_shift)
  also have "\<dots> = of_int (2 ^ 52) * ulp a"
    by (simp add: ulp_def)
  finally show ?thesis .
qed

lemma round_pos_nonneg:
  assumes "0 < a"
  shows "0 \<le> round_pos a"
proof -
  from assms ulp_pos [of a] have "0 \<le> a / ulp a" by simp
  from rne_mono [OF this] have "0 \<le> rne (a / ulp a)" by (simp add: rne_def)
  with ulp_pos [of a] show ?thesis by (simp add: round_pos_def)
qed

lemma round_pos_le_top:
  assumes "0 < a" and "binade a < 1024"
  shows "round_pos a \<le> 2 powi (binade a + 1)"
proof -
  from binade_spec [OF assms(1)] assms(2) have "a < 2 powi (binade a + 1)" by blast
  then have "a / ulp a \<le> of_int (2 ^ 53)"
    unfolding ulp_top using ulp_pos [of a] by (simp add: pos_divide_le_eq)
  from rne_mono [OF this] have "rne (a / ulp a) \<le> 2 ^ 53" by (simp only: rne_of_int)
  then have "real_of_int (rne (a / ulp a)) \<le> of_int (2 ^ 53)" by (simp only: of_int_le_iff)
  then show ?thesis
    unfolding ulp_top round_pos_def using ulp_pos [of a] by (intro mult_right_mono) simp_all
qed

lemma round_pos_ge_bot:
  assumes "0 < a" and "- 1022 < binade a"
  shows "2 powi (binade a) \<le> round_pos a"
proof -
  from binade_spec [OF assms(1)] assms(2) have "2 powi (binade a) \<le> a" by blast
  then have "of_int (2 ^ 52) \<le> a / ulp a"
    unfolding ulp_bot using ulp_pos [of a] by (simp add: pos_le_divide_eq)
  from rne_mono [OF this] have "2 ^ 52 \<le> rne (a / ulp a)" by (simp only: rne_of_int)
  then have "of_int (2 ^ 52) \<le> real_of_int (rne (a / ulp a))" by (simp only: of_int_le_iff)
  then show ?thesis
    unfolding ulp_bot round_pos_def using ulp_pos [of a] by (intro mult_right_mono) simp_all
qed

lemma round_pos_mono:
  assumes "0 < a" and "a \<le> b"
  shows "round_pos a \<le> round_pos b"
proof -
  from assms have b: "0 < b" by simp
  from binade_mono [OF assms] consider (same) "binade a = binade b" | (less) "binade a < binade b"
    by linarith
  then show ?thesis
  proof cases
    case same
    then have u: "ulp a = ulp b" by (simp add: ulp_def)
    from assms(2) ulp_pos [of b] have "a / ulp b \<le> b / ulp b" by (simp add: divide_right_mono)
    from rne_mono [OF this] have "real_of_int (rne (a / ulp b)) \<le> real_of_int (rne (b / ulp b))"
      by simp
    then show ?thesis
      unfolding round_pos_def u using ulp_pos [of b] by (intro mult_right_mono) simp_all
  next
    case less
    from binade_spec [OF b] less have a1: "binade a < 1024" by linarith
    from binade_spec [OF assms(1)] less have b1: "- 1022 < binade b" by linarith
    from less have "(2::real) powi (binade a + 1) \<le> 2 powi (binade b)"
      by (intro power_int_increasing) simp_all
    with round_pos_le_top [OF assms(1) a1] round_pos_ge_bot [OF b b1] show ?thesis by linarith
  qed
qed

lemma round_double_pos:
  assumes "0 < x"
  shows "round_double x = (if 2 powi 1024 \<le> round_pos x then PosInf else Fin (round_pos x))"
proof -
  from round_pos_nonneg [OF assms] have "\<bar>round_pos x\<bar> = round_pos x" by simp
  with assms show ?thesis
    by (simp add: round_double_def Let_def round_pos_def ulp_def)
qed

lemma round_double_neg:
  assumes "x < 0"
  shows "round_double x =
     (if 2 powi 1024 \<le> round_pos (- x) then NegInf else Fin (- round_pos (- x)))"
proof -
  have "of_int (rne (x / ulp (- x))) * ulp (- x) = - round_pos (- x)"
    using rne_minus [of "(- x) / ulp (- x)"] by (simp add: round_pos_def)
  moreover from assms round_pos_nonneg [of "- x"] have "\<bar>- round_pos (- x)\<bar> = round_pos (- x)"
    by simp
  moreover from assms have "\<bar>x\<bar> = - x" by simp
  ultimately show ?thesis using assms
    by (simp add: round_double_def Let_def ulp_def)
qed

lemma round_double_mono:
  assumes "x \<le> y"
  shows "js_le (round_double x) (round_double y)"
proof -
  consider (pp) "0 < x" | (nn) "y < 0" | (zz) "x \<le> 0" "0 \<le> y" using assms by linarith
  then show ?thesis
  proof cases
    case pp
    with assms have y: "0 < y" by simp
    from round_pos_mono [OF pp assms] show ?thesis
      by (simp add: round_double_pos [OF pp] round_double_pos [OF y])
  next
    case nn
    with assms have x: "x < 0" by simp
    from nn assms have "0 < - y" "- y \<le> - x" by simp_all
    from round_pos_mono [OF this] show ?thesis
      by (simp add: round_double_neg [OF nn] round_double_neg [OF x])
  next
    case zz
    have lo: "js_le (round_double x) (Fin 0)"
    proof (cases "x = 0")
      case True
      then show ?thesis by (simp add: round_double_def)
    next
      case False
      with zz have x: "x < 0" by simp
      from round_pos_nonneg [of "- x"] x show ?thesis by (simp add: round_double_neg [OF x])
    qed
    have hi: "js_le (Fin 0) (round_double y)"
    proof (cases "y = 0")
      case True
      then show ?thesis by (simp add: round_double_def)
    next
      case False
      with zz have y: "0 < y" by simp
      from round_pos_nonneg [OF y] show ?thesis by (simp add: round_double_pos [OF y])
    qed
    from lo hi show ?thesis
      by (cases "round_double x"; cases "round_double y") simp_all
  qed
qed


lemma round_double_not_NaN: "round_double x \<noteq> NaN"
  by (simp add: round_double_def Let_def)

lemma js_le_round_double_NegInf: "js_le NegInf (round_double x)"
  using round_double_not_NaN [of x] by (cases "round_double x") simp_all

lemma js_le_round_double_PosInf: "js_le (round_double x) PosInf"
  using round_double_not_NaN [of x] by (cases "round_double x") simp_all

lemma js_sub_antimono:
  assumes "js_le a b"
  shows "js_le (js_sub (Fin c) b) (js_sub (Fin c) a)"
proof (cases a; cases b)
  fix x y
  assume "a = Fin x" "b = Fin y"
  with assms have "c + - y \<le> c + - x" by simp
  from round_double_mono [OF this] \<open>a = Fin x\<close> \<open>b = Fin y\<close> show ?thesis
    by (simp add: js_sub_def)
qed (use assms in \<open>simp_all add: js_sub_def js_le_round_double_NegInf js_le_round_double_PosInf\<close>)

lemma js_div_mono:
  assumes "0 < d" and "js_le a b"
  shows "js_le (js_div a (Fin d)) (js_div b (Fin d))"
proof (cases a; cases b)
  fix x y
  assume "a = Fin x" "b = Fin y"
  with assms have "x / d \<le> y / d" by (simp add: divide_right_mono)
  from round_double_mono [OF this] \<open>a = Fin x\<close> \<open>b = Fin y\<close> assms(1) show ?thesis
    by simp
qed (use assms in \<open>simp_all add: signed_inf_def js_le_round_double_NegInf js_le_round_double_PosInf\<close>)

lemma js_mul_mono:
  assumes "0 < c" and "js_le a b"
  shows "js_le (js_mul a (Fin c)) (js_mul b (Fin c))"
proof (cases a; cases b)
  fix x y
  assume "a = Fin x" "b = Fin y"
  with assms have "x * c \<le> y * c" by (simp add: mult_right_mono)
  from round_double_mono [OF this] \<open>a = Fin x\<close> \<open>b = Fin y\<close> show ?thesis
    by simp
qed (use assms in \<open>simp_all add: signed_inf_def js_le_round_double_NegInf js_le_round_double_PosInf\<close>)

lemma Math_max_mono:
  assumes "js_le a b"
  shows "js_le (Math_max (Fin c) a) (Math_max (Fin c) b)"
  using assms by (cases a; cases b) auto

lemma Math_min_mono:
  assumes "js_le a b"
  shows "js_le (Math_min (Fin c) a) (Math_min (Fin c) b)"
  using assms by (cases a; cases b) auto

lemma up_unfold: "0 < n \<Longrightarrow> up n e a = (if a < 2 then e else up (n - 1) (e + 1) (a / 2))"
  by (cases n) simp_all

lemma down_unfold: "0 < n \<Longrightarrow> down n e a = (if 1 \<le> a then e else down (n - 1) (e - 1) (a * 2))"
  by (cases n) simp_all

lemmas double_eval =
  round_double_def binade_def up_unfold down_unfold rne_def Let_def power_int_minus

section \<open>Properties of the leaderboard confidence in doubles\<close>

lemma INITIAL_SIGMA_d_val: "INITIAL_SIGMA_d = Fin (4691061961859793 / 562949953421312)"
  by (simp add: INITIAL_SIGMA_d_def double_eval)

lemma denominator_val:
  "js_sub INITIAL_SIGMA_d (Fin 1.0) = Fin (4128112008438481 / 562949953421312)"
  by (simp add: INITIAL_SIGMA_d_val js_sub_def double_eval)

text \<open>
  Claim C9, as amended. The confidence does not increase with the average sigma as the
  page computes it, the sum of the sigmas in doubles in the order of the list divided by
  the number of entries: for two non-empty lists of entries, if the computed average of
  the first is at least the computed average of the second, the confidence of the first
  is at most the confidence of the second.
\<close>

theorem confidence_d_antimono:
  assumes "ps \<noteq> []" and "qs \<noteq> []"
    and "js_le (avgSigma_d qs) (avgSigma_d ps)"
  shows "js_le (confidence_d ps) (confidence_d qs)"
proof -
  have "js_le (js_sub INITIAL_SIGMA_d (avgSigma_d ps)) (js_sub INITIAL_SIGMA_d (avgSigma_d qs))"
    unfolding INITIAL_SIGMA_d_val using assms(3) by (rule js_sub_antimono)
  then show ?thesis
    unfolding confidence_d_def rawConfidence_d_def denominator_val
    by (intro Math_min_mono js_mul_mono Math_max_mono js_div_mono) simp_all
qed

lemma sigma_d_proj: "sigma_d (proj i c m s) = round_double s"
  by (simp add: sigma_d_def proj_def)

lemma avgSigma_d_ps9: "avgSigma_d ps9 = Fin (8556839292003941 / 4503599627370496)"
  by (simp add: avgSigma_d_def ps9_def sigma_d_proj) (simp add: double_eval)

lemma avgSigma_d_qs9: "avgSigma_d qs9 = Fin (8556839292003943 / 4503599627370496)"
  by (simp add: avgSigma_d_def qs9_def sigma_d_proj) (simp add: double_eval)

lemma confidence_d_ps9: "confidence_d ps9 = Fin (6173218754874029 / 70368744177664)"
  unfolding confidence_d_def rawConfidence_d_def denominator_val avgSigma_d_ps9
  unfolding INITIAL_SIGMA_d_val
  by (simp add: js_sub_def double_eval)

lemma confidence_d_qs9: "confidence_d qs9 = Fin (1543304688718507 / 17592186044416)"
  unfolding confidence_d_def rawConfidence_d_def denominator_val avgSigma_d_qs9
  unfolding INITIAL_SIGMA_d_val
  by (simp add: js_sub_def double_eval)

text \<open>
  The two orders of the sigmas 1, 3.6 and 1.1: the computed average of \<open>ps9\<close> is one unit
  in the last place below that of \<open>qs9\<close>, and the confidence of \<open>qs9\<close> is the smaller.
\<close>

theorem confidence_d_antimono_witness:
  "qs9 \<noteq> [] \<and> ps9 \<noteq> [] \<and> js_le (avgSigma_d ps9) (avgSigma_d qs9) \<and>
   js_le (confidence_d qs9) (confidence_d ps9)"
  using confidence_d_antimono [of qs9 ps9]
  by (simp add: avgSigma_d_ps9 avgSigma_d_qs9) (simp add: ps9_def qs9_def)

text \<open>
  Claim C9 as it is stated, with the arithmetic mean of the sigmas, fails on the page's
  computation. \<open>ps9\<close> and \<open>qs9\<close> list the same sigmas, so their means are equal and the
  mean of \<open>ps9\<close> is at least that of \<open>qs9\<close>; but the page computes 87.72671485067504 for
  \<open>ps9\<close> and 87.72671485067502 for \<open>qs9\<close> (the two fractions below), so the confidence of
  \<open>ps9\<close> is not at most that of \<open>qs9\<close>.
\<close>

theorem confidence_order_flips:
  "ps9 \<noteq> [] \<and> qs9 \<noteq> [] \<and>
   mean (map sigma qs9) \<le> mean (map sigma ps9) \<and>
   confidence_d ps9 = Fin (6173218754874029 / 70368744177664) \<and>
   confidence_d qs9 = Fin (1543304688718507 / 17592186044416) \<and>
   \<not> js_le (confidence_d ps9) (confidence_d qs9)"
  by (simp add: confidence_d_ps9 confidence_d_qs9) (simp add: ps9_def qs9_def mean_def sigma_proj)

section \<open>Properties of the judging page\<close>

lemma weigh_val:
  "weigh sc =
     (sc impact * 0.4 + sc technical * 0.3 + sc creativity * 0.2 + sc presentation * 0.1, 1)"
  by (simp add: weigh_def WEIGHTS_keys_def)

lemma finalScore_val:
  "finalScore sc = sc impact * 0.4 + sc technical * 0.3 + sc creativity * 0.2 + sc presentation * 0.1"
  by (simp add: finalScore_def weigh_val)

lemma left_state_val:
  "left_state =
     \<lparr>pair = Some \<lparr>project_a = proj ''a'' ''Science'' 25 8.333,
                    project_b = proj ''b'' ''Science'' 25 8.333\<rparr>,
      submitting = False, scores = (\<lambda>_. 20)\<rparr>"
  by (simp add: left_state_def draw_state_def)

lemma left_vote: "handleCreateVote left_state = Some \<lparr>winner_id = ''a'', loser_id = ''b''\<rparr>"
  unfolding left_state_val
  by (simp add: handleCreateVote_def finalScore_val api_vote_def id_p_proj)

text \<open>
  Claim C1. The claim is that a draw is never submitted: when the weighted score of the
  four sliders is the neutral 50, confirming sends no vote, and the winner of a vote that
  is sent is the entry the weighted score strictly prefers. The handler does otherwise.
  With a pair displayed, no submission under way and every slider at its initial 50, the
  weighted score is 50 and \<open>getWinnerSide\<close> reports \<open>neutral\<close> (the button reads
  "Select a Winner"), yet \<open>handleCreateVote\<close> sends a vote, and the vote names the right
  project b the winner over a: \<^verbatim>\<open>rightWins\<close> is \<^verbatim>\<open>finalScore >= 50\<close>, against the
  handler's own comment that a score above 50 means the right project wins.
\<close>

theorem draw_is_submitted:
  "finalScore (scores draw_state) = 50 \<and>
   getWinnerSide (scores draw_state) = neutral \<and>
   handleCreateVote draw_state = Some \<lparr>winner_id = ''b'', loser_id = ''a''\<rparr>"
  by (simp add: draw_state_def handleCreateVote_def finalScore_val getWinnerSide_def
      WEIGHTS_keys_def api_vote_def id_p_proj)

text \<open>
  Claim C8. Every vote request the judging page sends carries the ids of the two displayed
  projects, one as \<^verbatim>\<open>winner_id\<close> and the other as \<^verbatim>\<open>loser_id\<close>; so when the two
  displayed ids differ, the winner and the loser of the request differ.
\<close>

theorem vote_ids_from_pair:
  assumes "handleCreateVote st = Some req"
  shows "\<exists>p. pair st = Some p \<and>
     ((winner_id req = id_p (project_a p) \<and> loser_id req = id_p (project_b p)) \<or>
      (winner_id req = id_p (project_b p) \<and> loser_id req = id_p (project_a p))) \<and>
     (id_p (project_a p) \<noteq> id_p (project_b p) \<longrightarrow> winner_id req \<noteq> loser_id req)"
proof (cases "pair st")
  case None
  with assms show ?thesis by (simp add: handleCreateVote_def)
next
  case (Some p)
  with assms have
    "req = api_vote (id_p (project_b p)) (id_p (project_a p)) \<or>
     req = api_vote (id_p (project_a p)) (id_p (project_b p))"
    by (simp add: handleCreateVote_def Let_def split: if_splits)
  then have
    "(winner_id req = id_p (project_a p) \<and> loser_id req = id_p (project_b p)) \<or>
     (winner_id req = id_p (project_b p) \<and> loser_id req = id_p (project_a p))"
    by (auto simp: api_vote_def)
  with Some show ?thesis by auto
qed

text \<open>The page showing a and b with every slider at 20: the vote is a over b.\<close>

theorem vote_ids_from_pair_witness:
  "handleCreateVote left_state = Some \<lparr>winner_id = ''a'', loser_id = ''b''\<rparr> \<and>
   (\<exists>p. pair left_state = Some p \<and> id_p (project_a p) = ''a'' \<and> id_p (project_b p) = ''b'') \<and>
   ''a'' \<noteq> ''b''"
  using vote_ids_from_pair [OF left_vote] left_vote
  unfolding left_state_val
  by (simp add: id_p_proj)

subsection \<open>The draw in doubles\<close>

text \<open>
  With the rounding of the program the picture at the initial sliders is the same: the sum
  of the weights is one unit in the last place below 1, the final score is
  50.00000000000001, the side is neutral, and the vote for b over a is sent.
\<close>

lemma WEIGHTS_d_val:
  "WEIGHTS_d impact = Fin (3602879701896397 / 9007199254740992)"
  "WEIGHTS_d technical = Fin (5404319552844595 / 18014398509481984)"
  "WEIGHTS_d creativity = Fin (3602879701896397 / 18014398509481984)"
  "WEIGHTS_d presentation = Fin (3602879701896397 / 36028797018963968)"
  by (simp_all add: WEIGHTS_d_def double_eval)

lemma score_50: "scores_d (\<lambda>_. 50) c = Fin 50"
  by (simp add: scores_d_def double_eval)

lemma weigh_d_draw:
  "weigh_d (\<lambda>_. 50) = (Fin 50, Fin (9007199254740991 / 9007199254740992))"
  by (simp add: weigh_d_def WEIGHTS_keys_def score_50 WEIGHTS_d_val) (simp add: double_eval)

lemma finalScore_d_draw: "finalScore_d (\<lambda>_. 50) = Fin (7036874417766401 / 140737488355328)"
  by (simp add: finalScore_d_def weigh_d_draw) (simp add: double_eval)

lemma getWinnerSide_d_draw: "getWinnerSide_d (\<lambda>_. 50) = neutral"
  by (simp add: getWinnerSide_d_def WEIGHTS_keys_def score_50 WEIGHTS_d_val js_sub_def)
     (simp add: double_eval)

lemma draw_is_submitted_in_doubles:
  "finalScore_d (scores draw_state) = Fin (7036874417766401 / 140737488355328) \<and>
   getWinnerSide_d (scores draw_state) = neutral \<and>
   handleCreateVote_d draw_state = Some \<lparr>winner_id = ''b'', loser_id = ''a''\<rparr>"
  by (simp add: draw_state_def handleCreateVote_d_def finalScore_d_draw getWinnerSide_d_draw
      api_vote_def id_p_proj)

section \<open>The fuel of the JSON parsers is enough\<close>

lemma skip_ws_length: "length (skip_ws s) \<le> length s"
  by (simp add: skip_ws_def length_dropWhile_le)

lemma starts_with_length: "starts_with c s \<Longrightarrow> length (tl s) < length s"
  by (cases s) (simp_all add: starts_with_def)

lemma parse_literal_length:
  "word \<noteq> [] \<Longrightarrow> parse_literal word v s = Some (x, r) \<Longrightarrow> length r < length s"
proof -
  assume w: "word \<noteq> []" and p: "parse_literal word v s = Some (x, r)"
  from p have t: "take (length word) s = word" and r: "r = drop (length word) s"
    by (simp_all add: parse_literal_def split: if_splits)
  from arg_cong [OF t, of length] have "length word \<le> length s"
    by simp
  with w r show ?thesis by (cases word) simp_all
qed

lemma cons_unit_Some: "cons_unit u x = Some (us, r) \<Longrightarrow> \<exists>us'. x = Some (us', r)"
  by (cases x) (auto simp: cons_unit_def)

lemma parse_chars_step:
  assumes "parse_chars (c # cs) = Some (us, r)"
  shows "r = cs \<or> (\<exists>us'. parse_chars cs = Some (us', r)) \<or>
         (\<exists>e es us'. cs = e # es \<and> parse_chars es = Some (us', r)) \<or>
         (\<exists>e h1 h2 h3 h4 rest us'. cs = e # h1 # h2 # h3 # h4 # rest \<and> parse_chars rest = Some (us', r))"
proof (cases "c = CHR 0x22")
  case True
  with assms show ?thesis by simp
next
  case q: False
  show ?thesis
  proof (cases "c = CHR 0x5C")
    case False
    with q assms have "\<exists>us'. parse_chars cs = Some (us', r)"
      by (auto split: if_splits dest: cons_unit_Some)
    then show ?thesis by blast
  next
    case b: True
    show ?thesis
    proof (cases cs)
      case Nil
      with q b assms show ?thesis by simp
    next
      case (Cons e es)
      show ?thesis
      proof (cases "e = CHR ''u''")
        case False
        with q b Cons assms have "\<exists>us'. parse_chars es = Some (us', r)"
          by (auto split: option.splits dest: cons_unit_Some)
        with Cons show ?thesis by blast
      next
        case True
        with q b Cons assms have
          "\<exists>h1 h2 h3 h4 rest us'. es = h1 # h2 # h3 # h4 # rest \<and> parse_chars rest = Some (us', r)"
          by (auto split: list.splits option.splits dest: cons_unit_Some)
        with Cons show ?thesis by blast
      qed
    qed
  qed
qed

lemma parse_chars_length: "parse_chars s = Some (us, r) \<Longrightarrow> length r < length s"
proof (induction s arbitrary: us rule: length_induct)
  case (1 s)
  show ?case
  proof (cases s)
    case Nil
    with "1.prems" show ?thesis by simp
  next
    case (Cons c cs)
    from parse_chars_step [OF "1.prems" [unfolded Cons]] "1.IH" Cons show ?thesis
      by (elim disjE exE conjE) force+
  qed
qed

lemma digits1_length: "digits1 s = Some (ds, r) \<Longrightarrow> length r < length s"
proof -
  assume d: "digits1 s = Some (ds, r)"
  then have ne: "takeWhile is_digit s \<noteq> []" and r: "r = dropWhile is_digit s"
    by (simp_all add: digits1_def split: if_splits)
  have "length (takeWhile is_digit s) + length (dropWhile is_digit s) = length s"
    by (metis length_append takeWhile_dropWhile_id)
  with ne r show ?thesis by (cases "takeWhile is_digit s") simp_all
qed

lemma parse_int_length: "parse_int s = Some (ds, r) \<Longrightarrow> length r < length s"
  by (auto simp: parse_int_def dest: digits1_length starts_with_length split: if_splits)

lemma parse_frac_length: "parse_frac s = Some (ds, r) \<Longrightarrow> length r \<le> length s"
  by (auto simp: parse_frac_def dest!: digits1_length dest: starts_with_length split: if_splits)

lemma parse_exp_length: "parse_exp s = Some (ds, r) \<Longrightarrow> length r \<le> length s"
  by (auto simp: parse_exp_def Let_def dest!: digits1_length dest: starts_with_length split: if_splits)

lemma parse_number_length:
  assumes "parse_number s = Some (l, r)"
  shows "length r < length s"
proof -
  define s0 where "s0 = (if starts_with CHR ''-'' s then tl s else s)"
  have s0: "length s0 \<le> length s" by (simp add: s0_def)
  from assms obtain ip s1 fp s2 ep where
    "parse_int s0 = Some (ip, s1)" "parse_frac s1 = Some (fp, s2)" "parse_exp s2 = Some (ep, r)"
    by (auto simp: parse_number_def s0_def split: if_splits option.splits)
  then have "length s1 < length s0" "length s2 \<le> length s1" "length r \<le> length s2"
    by (auto dest: parse_int_length parse_frac_length parse_exp_length)
  with s0 show ?thesis by simp
qed


lemma parse_value_leaf_fuel:
  "\<not> starts_with CHR ''['' s \<Longrightarrow> \<not> starts_with CHR ''{'' s \<Longrightarrow>
     parse_value (Suc n) s = parse_value (Suc 0) s"
  by simp

lemma parse_value_leaf_length:
  assumes "\<not> starts_with CHR ''['' s" and "\<not> starts_with CHR ''{'' s"
    and "parse_value (Suc n) s = Some (v, r)"
  shows "length r < length s"
proof -
  consider (lit) w x where "w \<noteq> []" "parse_literal w x s = Some (v, r)"
    | (str) us where "starts_with CHR 0x22 s" "parse_chars (tl s) = Some (us, r)"
    | (num) l where "parse_number s = Some (l, r)"
    using assms by (fastforce split: if_splits)
  then show ?thesis
  proof cases
    case lit
    then show ?thesis by (rule parse_literal_length)
  next
    case str
    from parse_chars_length [OF str(2)] starts_with_length [OF str(1)] show ?thesis
      by (rule less_trans)
  next
    case num
    then show ?thesis by (rule parse_number_length)
  qed
qed

lemma parse_value_array:
  assumes "starts_with CHR ''['' s"
  shows "parse_value (Suc n) s =
     (if starts_with CHR '']'' (skip_ws (tl s)) then Some (JArray [], tl (skip_ws (tl s)))
      else map_option (\<lambda>(vs, rest). (JArray vs, rest)) (parse_elements n (skip_ws (tl s))))"
  using assms by (cases s) (auto simp: starts_with_def)

lemma parse_value_object:
  assumes "starts_with CHR ''{'' s"
  shows "parse_value (Suc n) s =
     (if starts_with CHR ''}'' (skip_ws (tl s)) then Some (JObject [], tl (skip_ws (tl s)))
      else map_option (\<lambda>(ms, rest). (JObject (object_of_members ms), rest))
                (parse_members n (skip_ws (tl s))))"
  using assms by (cases s) (auto simp: starts_with_def)


lemma parse_elements_Suc_cases:
  assumes "parse_elements (Suc n) s = Some (vs, r)"
  obtains (more) v r1 vs' where "parse_value n s = Some (v, r1)"
      "starts_with CHR '','' (skip_ws r1)"
      "parse_elements n (skip_ws (tl (skip_ws r1))) = Some (vs', r)" "vs = v # vs'"
    | (last) v r1 where "parse_value n s = Some (v, r1)"
      "\<not> starts_with CHR '','' (skip_ws r1)" "starts_with CHR '']'' (skip_ws r1)"
      "r = tl (skip_ws r1)" "vs = [v]"
  using assms by (fastforce split: option.splits if_splits)

lemma parse_members_Suc_cases:
  assumes "parse_members (Suc n) s = Some (ms, r)"
  obtains (more) k r0 v r1 ms' where "starts_with CHR 0x22 s" "parse_chars (tl s) = Some (k, r0)"
      "starts_with CHR '':'' (skip_ws r0)"
      "parse_value n (skip_ws (tl (skip_ws r0))) = Some (v, r1)"
      "starts_with CHR '','' (skip_ws r1)"
      "parse_members n (skip_ws (tl (skip_ws r1))) = Some (ms', r)" "ms = (k, v) # ms'"
    | (last) k r0 v r1 where "starts_with CHR 0x22 s" "parse_chars (tl s) = Some (k, r0)"
      "starts_with CHR '':'' (skip_ws r0)"
      "parse_value n (skip_ws (tl (skip_ws r0))) = Some (v, r1)"
      "\<not> starts_with CHR '','' (skip_ws r1)" "starts_with CHR ''}'' (skip_ws r1)"
      "r = tl (skip_ws r1)" "ms = [(k, v)]"
  using assms by (fastforce split: option.splits if_splits)


lemma value_fuel_okD:
  "value_fuel_ok n \<Longrightarrow> parse_value n s = Some (v, r) \<Longrightarrow>
     length r < length s \<and>
     (\<forall>m. 2 * length s \<le> m + 1 + 2 * length r \<longrightarrow> parse_value m s = Some (v, r))"
  unfolding value_fuel_ok_def by blast

lemma elements_fuel_okD:
  "elements_fuel_ok n \<Longrightarrow> parse_elements n s = Some (vs, r) \<Longrightarrow>
     length r + 2 \<le> length s \<and>
     (\<forall>m. 2 * length s \<le> m + 2 + 2 * length r \<longrightarrow> parse_elements m s = Some (vs, r))"
  unfolding elements_fuel_ok_def by blast

lemma members_fuel_okD:
  "members_fuel_ok n \<Longrightarrow> parse_members n s = Some (ms, r) \<Longrightarrow>
     length r + 2 \<le> length s \<and>
     (\<forall>m. 2 * length s \<le> m + 2 + 2 * length r \<longrightarrow> parse_members m s = Some (ms, r))"
  unfolding members_fuel_ok_def by blast

lemma tl_skip_ws_length: "starts_with c (skip_ws s) \<Longrightarrow> Suc (length (tl (skip_ws s))) \<le> length s"
  using starts_with_length [of c "skip_ws s"] skip_ws_length [of s] by linarith

lemma value_fuel_ok_Suc:
  assumes e: "elements_fuel_ok n" and ms: "members_fuel_ok n"
  shows "value_fuel_ok (Suc n)"
  unfolding value_fuel_ok_def
proof (intro allI impI)
  fix s v r
  assume p: "parse_value (Suc n) s = Some (v, r)"
  consider (arr) "starts_with CHR ''['' s" | (obj) "starts_with CHR ''{'' s"
    | (leaf) "\<not> starts_with CHR ''['' s" "\<not> starts_with CHR ''{'' s" by blast
  then show "length r < length s \<and>
     (\<forall>m. 2 * length s \<le> m + 1 + 2 * length r \<longrightarrow> parse_value m s = Some (v, r))"
  proof cases
    case leaf
    from parse_value_leaf_length [OF leaf p] have l: "length r < length s" .
    have "parse_value m s = Some (v, r)" if "2 * length s \<le> m + 1 + 2 * length r" for m
    proof -
      from that l obtain m' where "m = Suc m'" by (cases m) simp_all
      with p parse_value_leaf_fuel [OF leaf, of n] parse_value_leaf_fuel [OF leaf, of m']
      show ?thesis by simp
    qed
    with l show ?thesis by blast
  next
    case arr
    note sl = starts_with_length [OF arr]
    show ?thesis
    proof (cases "starts_with CHR '']'' (skip_ws (tl s))")
      case True
      with p arr have v: "v = JArray []" and r: "r = tl (skip_ws (tl s))"
        by (simp_all add: parse_value_array del: parse_value.simps)
      from tl_skip_ws_length [OF True] sl r have l: "length r + 2 \<le> length s" by simp
      have "parse_value m s = Some (v, r)" if "2 * length s \<le> m + 1 + 2 * length r" for m
      proof -
        from that l obtain m' where "m = Suc m'" by (cases m) simp_all
        with True v r arr show ?thesis by (simp add: parse_value_array del: parse_value.simps)
      qed
      with l show ?thesis by auto
    next
      case False
      with p arr obtain vs where pe: "parse_elements n (skip_ws (tl s)) = Some (vs, r)"
        and v: "v = JArray vs"
        by (auto simp: parse_value_array simp del: parse_value.simps)
      from elements_fuel_okD [OF e pe] have l0: "length r + 2 \<le> length (skip_ws (tl s))"
        and f: "\<And>m. 2 * length (skip_ws (tl s)) \<le> m + 2 + 2 * length r \<Longrightarrow>
                  parse_elements m (skip_ws (tl s)) = Some (vs, r)" by blast+
      from l0 skip_ws_length [of "tl s"] sl have l: "length r + 3 \<le> length s" by simp
      have "parse_value m s = Some (v, r)" if "2 * length s \<le> m + 1 + 2 * length r" for m
      proof -
        from that l obtain m' where m: "m = Suc m'" by (cases m) simp_all
        from that m skip_ws_length [of "tl s"] sl
        have "2 * length (skip_ws (tl s)) \<le> m' + 2 + 2 * length r" by simp
        from f [OF this] m False v arr show ?thesis by (simp add: parse_value_array del: parse_value.simps)
      qed
      with l show ?thesis by auto
    qed
  next
    case obj
    note sl = starts_with_length [OF obj]
    show ?thesis
    proof (cases "starts_with CHR ''}'' (skip_ws (tl s))")
      case True
      with p obj have v: "v = JObject []" and r: "r = tl (skip_ws (tl s))"
        by (simp_all add: parse_value_object del: parse_value.simps)
      from tl_skip_ws_length [OF True] sl r have l: "length r + 2 \<le> length s" by simp
      have "parse_value m s = Some (v, r)" if "2 * length s \<le> m + 1 + 2 * length r" for m
      proof -
        from that l obtain m' where "m = Suc m'" by (cases m) simp_all
        with True v r obj show ?thesis by (simp add: parse_value_object del: parse_value.simps)
      qed
      with l show ?thesis by auto
    next
      case False
      with p obj obtain xs where pe: "parse_members n (skip_ws (tl s)) = Some (xs, r)"
        and v: "v = JObject (object_of_members xs)"
        by (auto simp: parse_value_object simp del: parse_value.simps)
      from members_fuel_okD [OF ms pe] have l0: "length r + 2 \<le> length (skip_ws (tl s))"
        and f: "\<And>m. 2 * length (skip_ws (tl s)) \<le> m + 2 + 2 * length r \<Longrightarrow>
                  parse_members m (skip_ws (tl s)) = Some (xs, r)" by blast+
      from l0 skip_ws_length [of "tl s"] sl have l: "length r + 3 \<le> length s" by simp
      have "parse_value m s = Some (v, r)" if "2 * length s \<le> m + 1 + 2 * length r" for m
      proof -
        from that l obtain m' where m: "m = Suc m'" by (cases m) simp_all
        from that m skip_ws_length [of "tl s"] sl
        have "2 * length (skip_ws (tl s)) \<le> m' + 2 + 2 * length r" by simp
        from f [OF this] m False v obj show ?thesis by (simp add: parse_value_object del: parse_value.simps)
      qed
      with l show ?thesis by auto
    qed
  qed
qed


lemma parse_elements_more:
  assumes "parse_value n s = Some (v, r1)" and "starts_with CHR '','' (skip_ws r1)"
    and "parse_elements n (skip_ws (tl (skip_ws r1))) = Some (vs', r)"
  shows "parse_elements (Suc n) s = Some (v # vs', r)"
  using assms by simp

lemma parse_elements_last:
  assumes "parse_value n s = Some (v, r1)" and "\<not> starts_with CHR '','' (skip_ws r1)"
    and "starts_with CHR '']'' (skip_ws r1)"
  shows "parse_elements (Suc n) s = Some ([v], tl (skip_ws r1))"
  using assms by simp

lemma elements_fuel_ok_Suc:
  assumes v: "value_fuel_ok n" and e: "elements_fuel_ok n"
  shows "elements_fuel_ok (Suc n)"
  unfolding elements_fuel_ok_def
proof (intro allI impI)
  fix s vs r
  assume "parse_elements (Suc n) s = Some (vs, r)"
  then show "length r + 2 \<le> length s \<and>
     (\<forall>m. 2 * length s \<le> m + 2 + 2 * length r \<longrightarrow> parse_elements m s = Some (vs, r))"
  proof (cases rule: parse_elements_Suc_cases)
    case (more x r1 vs')
    from value_fuel_okD [OF v more(1)] have l1: "length r1 < length s"
      and f1: "\<And>m. 2 * length s \<le> m + 1 + 2 * length r1 \<Longrightarrow> parse_value m s = Some (x, r1)"
      by blast+
    let ?u = "skip_ws (tl (skip_ws r1))"
    from elements_fuel_okD [OF e more(3)] have l2: "length r + 2 \<le> length ?u"
      and f2: "\<And>m. 2 * length ?u \<le> m + 2 + 2 * length r \<Longrightarrow> parse_elements m ?u = Some (vs', r)"
      by blast+
    from tl_skip_ws_length [OF more(2)] skip_ws_length [of "tl (skip_ws r1)"]
    have u: "Suc (length ?u) \<le> length r1" by linarith
    from l1 l2 u have l: "length r + 4 \<le> length s" by linarith
    have "parse_elements m s = Some (vs, r)" if "2 * length s \<le> m + 2 + 2 * length r" for m
    proof -
      from that l obtain m' where m: "m = Suc m'" by (cases m) simp_all
      from that m l2 u have "2 * length s \<le> m' + 1 + 2 * length r1" by linarith
      from f1 [OF this] have a: "parse_value m' s = Some (x, r1)" .
      from that m l1 u have "2 * length ?u \<le> m' + 2 + 2 * length r" by linarith
      from f2 [OF this] have b: "parse_elements m' ?u = Some (vs', r)" .
      from parse_elements_more [OF a more(2) b] m more(4) show ?thesis by simp
    qed
    with l show ?thesis by auto
  next
    case (last x r1)
    from value_fuel_okD [OF v last(1)] have l1: "length r1 < length s"
      and f1: "\<And>m. 2 * length s \<le> m + 1 + 2 * length r1 \<Longrightarrow> parse_value m s = Some (x, r1)"
      by blast+
    from tl_skip_ws_length [OF last(3)] last(4) have u: "Suc (length r) \<le> length r1" by simp
    from l1 u have l: "length r + 2 \<le> length s" by linarith
    have "parse_elements m s = Some (vs, r)" if "2 * length s \<le> m + 2 + 2 * length r" for m
    proof -
      from that l obtain m' where m: "m = Suc m'" by (cases m) simp_all
      from that m u have "2 * length s \<le> m' + 1 + 2 * length r1" by linarith
      from f1 [OF this] have a: "parse_value m' s = Some (x, r1)" .
      from parse_elements_last [OF a last(2) last(3)] m last(4) last(5) show ?thesis by simp
    qed
    with l show ?thesis by auto
  qed
qed

lemma parse_members_more:
  assumes "starts_with CHR 0x22 s" and "parse_chars (tl s) = Some (k, r0)"
    and "starts_with CHR '':'' (skip_ws r0)"
    and "parse_value n (skip_ws (tl (skip_ws r0))) = Some (v, r1)"
    and "starts_with CHR '','' (skip_ws r1)"
    and "parse_members n (skip_ws (tl (skip_ws r1))) = Some (ms', r)"
  shows "parse_members (Suc n) s = Some ((k, v) # ms', r)"
  using assms by simp

lemma parse_members_last:
  assumes "starts_with CHR 0x22 s" and "parse_chars (tl s) = Some (k, r0)"
    and "starts_with CHR '':'' (skip_ws r0)"
    and "parse_value n (skip_ws (tl (skip_ws r0))) = Some (v, r1)"
    and "\<not> starts_with CHR '','' (skip_ws r1)" and "starts_with CHR ''}'' (skip_ws r1)"
  shows "parse_members (Suc n) s = Some ([(k, v)], tl (skip_ws r1))"
  using assms by simp

lemma members_fuel_ok_Suc:
  assumes v: "value_fuel_ok n" and e: "members_fuel_ok n"
  shows "members_fuel_ok (Suc n)"
  unfolding members_fuel_ok_def
proof (intro allI impI)
  fix s ms r
  assume "parse_members (Suc n) s = Some (ms, r)"
  then show "length r + 2 \<le> length s \<and>
     (\<forall>m. 2 * length s \<le> m + 2 + 2 * length r \<longrightarrow> parse_members m s = Some (ms, r))"
  proof (cases rule: parse_members_Suc_cases)
    case (more k r0 x r1 ms')
    let ?t = "skip_ws (tl (skip_ws r0))"
    let ?u = "skip_ws (tl (skip_ws r1))"
    from parse_chars_length [OF more(2)] starts_with_length [OF more(1)]
    have k: "length r0 < length s" by linarith
    from tl_skip_ws_length [OF more(3)] skip_ws_length [of "tl (skip_ws r0)"]
    have t: "Suc (length ?t) \<le> length r0" by linarith
    from value_fuel_okD [OF v more(4)] have l1: "length r1 < length ?t"
      and f1: "\<And>m. 2 * length ?t \<le> m + 1 + 2 * length r1 \<Longrightarrow> parse_value m ?t = Some (x, r1)"
      by blast+
    from members_fuel_okD [OF e more(6)] have l2: "length r + 2 \<le> length ?u"
      and f2: "\<And>m. 2 * length ?u \<le> m + 2 + 2 * length r \<Longrightarrow> parse_members m ?u = Some (ms', r)"
      by blast+
    from tl_skip_ws_length [OF more(5)] skip_ws_length [of "tl (skip_ws r1)"]
    have u: "Suc (length ?u) \<le> length r1" by linarith
    from k t l1 l2 u have l: "length r + 6 \<le> length s" by linarith
    have "parse_members m s = Some (ms, r)" if "2 * length s \<le> m + 2 + 2 * length r" for m
    proof -
      from that l obtain m' where m: "m = Suc m'" by (cases m) simp_all
      from that m k t l2 u have "2 * length ?t \<le> m' + 1 + 2 * length r1" by linarith
      from f1 [OF this] have a: "parse_value m' ?t = Some (x, r1)" .
      from that m k t l1 u have "2 * length ?u \<le> m' + 2 + 2 * length r" by linarith
      from f2 [OF this] have b: "parse_members m' ?u = Some (ms', r)" .
      from parse_members_more [OF more(1) more(2) more(3) a more(5) b] m more(7)
      show ?thesis by simp
    qed
    with l show ?thesis by auto
  next
    case (last k r0 x r1)
    let ?t = "skip_ws (tl (skip_ws r0))"
    from parse_chars_length [OF last(2)] starts_with_length [OF last(1)]
    have k: "length r0 < length s" by linarith
    from tl_skip_ws_length [OF last(3)] skip_ws_length [of "tl (skip_ws r0)"]
    have t: "Suc (length ?t) \<le> length r0" by linarith
    from value_fuel_okD [OF v last(4)] have l1: "length r1 < length ?t"
      and f1: "\<And>m. 2 * length ?t \<le> m + 1 + 2 * length r1 \<Longrightarrow> parse_value m ?t = Some (x, r1)"
      by blast+
    from tl_skip_ws_length [OF last(6)] last(7) have u: "Suc (length r) \<le> length r1" by simp
    from k t l1 u have l: "length r + 4 \<le> length s" by linarith
    have "parse_members m s = Some (ms, r)" if "2 * length s \<le> m + 2 + 2 * length r" for m
    proof -
      from that l obtain m' where m: "m = Suc m'" by (cases m) simp_all
      from that m k t u have "2 * length ?t \<le> m' + 1 + 2 * length r1" by linarith
      from f1 [OF this] have a: "parse_value m' ?t = Some (x, r1)" .
      from parse_members_last [OF last(1) last(2) last(3) a last(5) last(6)] m last(7) last(8)
      show ?thesis by simp
    qed
    with l show ?thesis by auto
  qed
qed

lemma fuel_ok: "value_fuel_ok n \<and> elements_fuel_ok n \<and> members_fuel_ok n"
proof (induction n)
  case 0
  show ?case by (simp add: value_fuel_ok_def elements_fuel_ok_def members_fuel_ok_def)
next
  case (Suc n)
  then show ?case
    by (simp add: value_fuel_ok_Suc elements_fuel_ok_Suc members_fuel_ok_Suc)
qed

text \<open>
  If any fuel at all parses a text, the fuel of \<open>JSON_parse\<close> parses it to the same
  value: \<open>JSON_parse\<close> reports a syntax error only for a text that no fuel parses.
\<close>

lemma JSON_parse_fuel:
  assumes "parse_value n (skip_ws input) = Some (v, rest)"
  shows "JSON_parse input = (if skip_ws rest = [] then Inr v else Inl SyntaxError)"
proof -
  from fuel_ok [of n] have "value_fuel_ok n" by simp
  from value_fuel_okD [OF this assms]
  have f: "\<And>m. 2 * length (skip_ws input) \<le> m + 1 + 2 * length rest \<Longrightarrow>
             parse_value m (skip_ws input) = Some (v, rest)" by blast
  from skip_ws_length [of input]
  have "2 * length (skip_ws input) \<le> (2 * length input + 2) + 1 + 2 * length rest" by linarith
  from f [OF this] show ?thesis by (simp add: JSON_parse_def del: parse_value.simps)
qed

section \<open>Properties of the pair cache initializer\<close>

lemma JSON_parse_null: "JSON_parse ''null'' = Inr JNull"
  by code_simp

lemma JSON_parse_malformed: "JSON_parse ''{bad'' = Inl SyntaxError"
  by code_simp

lemma JSON_parse_empty_array: "JSON_parse ''[]'' = Inr (JArray [])"
  by code_simp

lemma JSON_parse_Nil: "JSON_parse [] = Inl SyntaxError"
  by code_simp

text \<open>
  Whatever the storage holds under \<^verbatim>\<open>duel_state\<close> and whatever the platform's parser does
  with it, the initializer returns a value and raises no exception: the empty cache when
  the key is absent, when the stored text is empty and when parsing it throws, and the
  parsed value as it is otherwise.
\<close>

lemma categoryPairs_init_total:
  "(\<exists>v. categoryPairs_init parse localStorage = Inr v) \<and>
   (localStorage ''duel_state'' = None \<or> localStorage ''duel_state'' = Some [] \<or>
    (\<exists>stored e. localStorage ''duel_state'' = Some stored \<and> parse stored = Inl e)
      \<longrightarrow> categoryPairs_init parse localStorage = Inr (JObject [])) \<and>
   (\<forall>stored v. localStorage ''duel_state'' = Some stored \<and> stored \<noteq> [] \<and> parse stored = Inr v
      \<longrightarrow> categoryPairs_init parse localStorage = Inr v)"
proof (intro conjI impI allI)
  show "\<exists>v. categoryPairs_init parse localStorage = Inr v"
    by (simp add: categoryPairs_init_def split: option.splits sum.splits)
next
  assume "localStorage ''duel_state'' = None \<or> localStorage ''duel_state'' = Some [] \<or>
    (\<exists>stored e. localStorage ''duel_state'' = Some stored \<and> parse stored = Inl e)"
  then show "categoryPairs_init parse localStorage = Inr (JObject [])"
    by (auto simp: categoryPairs_init_def)
next
  fix stored v
  assume "localStorage ''duel_state'' = Some stored \<and> stored \<noteq> [] \<and> parse stored = Inr v"
  then show "categoryPairs_init parse localStorage = Inr v"
    by (simp add: categoryPairs_init_def)
qed

text \<open>
  The initializer on an empty storage, on an empty stored text, on a stored text that is
  not JSON, and on a stored text that parses (to an empty array, returned as it is).
\<close>

lemma categoryPairs_init_examples:
  "categoryPairs_init JSON_parse Map.empty = Inr (JObject []) \<and>
   categoryPairs_init JSON_parse [''duel_state'' \<mapsto> []] = Inr (JObject []) \<and>
   JSON_parse ''{bad'' = Inl SyntaxError \<and>
   categoryPairs_init JSON_parse [''duel_state'' \<mapsto> ''{bad''] = Inr (JObject []) \<and>
   JSON_parse ''[]'' = Inr (JArray []) \<and>
   categoryPairs_init JSON_parse [''duel_state'' \<mapsto> ''[]''] = Inr (JArray [])"
  using categoryPairs_init_total [of JSON_parse Map.empty]
    categoryPairs_init_total [of JSON_parse "[''duel_state'' \<mapsto> []]"]
    categoryPairs_init_total [of JSON_parse "[''duel_state'' \<mapsto> ''{bad'']"]
    categoryPairs_init_total [of JSON_parse "[''duel_state'' \<mapsto> ''[]'']"]
  by (simp add: JSON_parse_malformed JSON_parse_empty_array)

text \<open>
  With the parser of the JSON grammar, a parsed value is an object exactly when the text
  starts with a brace. So the initializer returns a cache object when the key is absent,
  when the stored text does not parse, and when it is the text of a JSON object; for every
  other well-formed text (a literal, a number, a string, an array) it returns a value that
  is no cache object.
\<close>

lemma parse_value_cache_object:
  "parse_value n t = Some (v, r) \<Longrightarrow> is_cache_object v = starts_with CHR ''{'' t"
  by (cases n) (auto simp: is_cache_object_def parse_literal_def starts_with_def
      split: if_splits list.splits)

lemma JSON_parse_cache_object:
  assumes "JSON_parse input = Inr v"
  shows "is_cache_object v = starts_with CHR ''{'' (skip_ws input)"
proof -
  from assms obtain r where "parse_value (2 * length input + 2) (skip_ws input) = Some (v, r)"
    by (auto simp: JSON_parse_def simp del: parse_value.simps split: option.splits if_splits)
  then show ?thesis by (rule parse_value_cache_object)
qed

lemma categoryPairs_init_cache_object:
  assumes "categoryPairs_init JSON_parse localStorage = Inr v"
  shows "is_cache_object v \<longleftrightarrow>
     (case localStorage ''duel_state'' of
        None \<Rightarrow> True
      | Some stored \<Rightarrow>
          (case JSON_parse stored of
             Inl err \<Rightarrow> True
           | Inr w \<Rightarrow> starts_with CHR ''{'' (skip_ws stored)))"
proof (cases "localStorage ''duel_state''")
  case None
  with assms show ?thesis by (auto simp: categoryPairs_init_def is_cache_object_def)
next
  case (Some stored)
  show ?thesis
  proof (cases "JSON_parse stored")
    case (Inl err)
    with Some assms show ?thesis
      by (auto simp: categoryPairs_init_def is_cache_object_def split: if_splits)
  next
    case (Inr w)
    with JSON_parse_Nil have ne: "stored \<noteq> []" by auto
    with Some Inr assms have "v = w" by (simp add: categoryPairs_init_def)
    with Some Inr JSON_parse_cache_object [OF Inr] show ?thesis by simp
  qed
qed

text \<open>
  Claim C10. The claim is that, for every stored string, the initializer of the pair cache
  returns a cache object and raises no exception. It raises none, but it does not always
  return a cache object: the stored text \<^verbatim>\<open>null\<close> is well-formed JSON, so \<^verbatim>\<open>JSON.parse\<close>
  does not throw, the \<^verbatim>\<open>catch\<close> with its empty cache is not reached, and the state
  declared as \<^verbatim>\<open>Record<string, PairResponse>\<close> is initialized to \<^verbatim>\<open>null\<close>. The
  component's first effect then reads \<^verbatim>\<open>categoryPairs[filterCategory]\<close>, a property of
  \<^verbatim>\<open>null\<close>.
\<close>

theorem categoryPairs_init_null:
  "categoryPairs_init JSON_parse [''duel_state'' \<mapsto> ''null''] = Inr JNull \<and>
   \<not> is_cache_object JNull"
  by (simp add: categoryPairs_init_def JSON_parse_null is_cache_object_def)

section \<open>Properties of the modelled engine\<close>

lemma ranks_before_key: "ranks_before a b \<longleftrightarrow> rank_key a \<le> rank_key b"
  by (auto simp: ranks_before_def rank_key_def)

lemma snapshot_sorted: "sorted_wrt ranks_before (snapshot store cat)"
proof -
  have "sorted (map rank_key (snapshot store cat))"
    by (simp add: snapshot_def)
  then show ?thesis
    by (simp add: sorted_wrt_map sorted_wrt_iff_nth_less ranks_before_key sorted_iff_nth_mono_less)
qed

lemma snapshot_mset: "mset (snapshot store cat) = mset (listActive store cat)"
  by (simp add: snapshot_def)

lemma archived_in_map:
  assumes "\<And>x. x \<in> set store \<Longrightarrow> id_p (f x) = i \<Longrightarrow> status (f x) = Archived"
  shows "archived_in i (map f store)"
  unfolding archived_in_def
proof (intro ballI impI)
  fix e
  assume "e \<in> set (map f store)" and i: "id_p e = i"
  then have "e \<in> f ` set store" by (simp only: set_map)
  then obtain x where "x \<in> set store" "e = f x" by (rule imageE)
  with assms i show "status e = Archived" by blast
qed

lemma archived_inD: "archived_in i store \<Longrightarrow> x \<in> set store \<Longrightarrow> id_p x = i \<Longrightarrow> status x = Archived"
  unfolding archived_in_def by blast

lemma archive_Inr:
  "archive store i = Inr store' \<Longrightarrow>
     store' = map (\<lambda>e. if id_p e = i then e\<lparr>status := Archived\<rparr> else e) store"
  by (cases "get store i") (simp_all add: archive_def)

lemma archived_in_archive:
  assumes "archive store i = Inr store'"
  shows "archived_in i store'"
  unfolding archive_Inr [OF assms]
  by (rule archived_in_map) (simp split: if_splits)

lemma archived_in_commit: "archived_in i store \<Longrightarrow> archived_in i (commit store j m s)"
  unfolding commit_def
  by (rule archived_in_map) (simp add: archived_inD split: if_splits)

lemma archived_in_other:
  assumes "archived_in i store" and "archive store j = Inr store'"
  shows "archived_in i store'"
  unfolding archive_Inr [OF assms(2)]
  by (rule archived_in_map) (simp add: archived_inD [OF assms(1)] split: if_splits)

lemma archived_in_apply_op: "archived_in i store \<Longrightarrow> archived_in i (apply_op store op)"
proof (cases op)
  case (Commit j m s)
  assume "archived_in i store"
  with Commit show ?thesis by (simp add: archived_in_commit)
next
  case (Archive j)
  assume a: "archived_in i store"
  show ?thesis
  proof (cases "archive store j")
    case (Inl err)
    with Archive a show ?thesis by simp
  next
    case (Inr store')
    with Archive a show ?thesis by (simp add: archived_in_other)
  qed
qed

lemma archived_in_run: "archived_in i store \<Longrightarrow> archived_in i (run store ops)"
  unfolding run_def
  by (induction ops arbitrary: store) (simp_all add: archived_in_apply_op)

lemma archived_not_listed:
  "archived_in i store \<Longrightarrow> e \<in> set (listActive store cat) \<Longrightarrow> id_p e \<noteq> i"
  unfolding listActive_def by (fastforce dest: archived_inD)

lemma set_pairs_of: "(a, b) \<in> set (pairs_of xs) \<Longrightarrow> a \<in> set xs \<and> b \<in> set xs"
  by (induction xs) auto

lemma best_in: "best cost b xs \<in> set (b # xs)"
  by (induction xs arbitrary: b) auto

lemma pairs_of_distinct:
  "distinct (map f xs) \<Longrightarrow> (a, b) \<in> set (pairs_of xs) \<Longrightarrow> f a \<noteq> f b"
  by (induction xs) (auto dest: set_pairs_of)

lemma pairs_of_Nil_iff: "pairs_of xs = [] \<longleftrightarrow> length xs < 2"
  by (induction xs rule: pairs_of.induct) (auto simp: Suc_less_eq2 neq_Nil_conv)

lemma eligible_subset: "set (eligible recent store cat) \<subseteq> set (pairs_of (listActive store cat))"
  by (auto simp: eligible_def Let_def)

lemma eligible_Nil_iff: "eligible recent store cat = [] \<longleftrightarrow> pairs_of (listActive store cat) = []"
  by (auto simp: eligible_def Let_def)

lemma nextPair_from_pool:
  assumes "nextPair cost recent store cat = Inr (i, j)"
  shows "\<exists>a b. (a, b) \<in> set (pairs_of (listActive store cat)) \<and> i = id_p a \<and> j = id_p b"
proof (cases "eligible recent store cat")
  case Nil
  with assms show ?thesis by (simp add: nextPair_def)
next
  case (Cons p ps)
  obtain a b where b: "best (\<lambda>(a, b). cost a b) p ps = (a, b)"
    by (cases "best (\<lambda>(a, b). cost a b) p ps")
  from assms Cons b have ij: "i = id_p a" "j = id_p b"
    by (simp_all add: nextPair_def)
  have "(a, b) \<in> set (eligible recent store cat)"
    using best_in [of "\<lambda>(a, b). cost a b" p ps] b Cons by simp
  with eligible_subset ij show ?thesis by blast
qed

lemma nextPair_EmptyPool_iff:
  "nextPair cost recent store cat = Inl EmptyPool \<longleftrightarrow> length (listActive store cat) < 2"
proof -
  have "nextPair cost recent store cat = Inl EmptyPool \<longleftrightarrow> eligible recent store cat = []"
    by (simp add: nextPair_def split: list.splits prod.splits)
  then show ?thesis by (simp add: eligible_Nil_iff pairs_of_Nil_iff)
qed

lemma nextPair_error: "nextPair cost recent store cat = Inl err \<Longrightarrow> err = EmptyPool"
  by (simp add: nextPair_def split: list.splits prod.splits)

text \<open>
  Claim C7. In a store where every id belongs to one entry, for every category scope:
  when the scope has at least two active entries, \<open>nextPair\<close> returns two ids that
  differ; and it fails with \<open>EmptyPool\<close> exactly when the scope, after the category
  filter, has fewer than two active entries.
\<close>

theorem nextPair_distinct_or_EmptyPool:
  assumes "distinct (map id_p store)"
  shows "(2 \<le> length (listActive store cat) \<longrightarrow>
           (\<exists>idA idB. nextPair cost recent store cat = Inr (idA, idB) \<and> idA \<noteq> idB)) \<and>
         (nextPair cost recent store cat = Inl EmptyPool \<longleftrightarrow> length (listActive store cat) < 2)"
proof (intro conjI impI)
  assume two: "2 \<le> length (listActive store cat)"
  have d: "distinct (map id_p (listActive store cat))"
    using assms by (simp add: listActive_def distinct_map_filter)
  from two have "nextPair cost recent store cat \<noteq> Inl EmptyPool"
    by (simp add: nextPair_EmptyPool_iff)
  then obtain idA idB where r: "nextPair cost recent store cat = Inr (idA, idB)"
    by (cases "nextPair cost recent store cat") (auto dest: nextPair_error)
  from nextPair_from_pool [OF r] obtain a b
    where "(a, b) \<in> set (pairs_of (listActive store cat))" "idA = id_p a" "idB = id_p b" by blast
  with pairs_of_distinct [OF d] have "idA \<noteq> idB" by blast
  with r show "\<exists>idA idB. nextPair cost recent store cat = Inr (idA, idB) \<and> idA \<noteq> idB" by blast
next
  show "nextPair cost recent store cat = Inl EmptyPool \<longleftrightarrow> length (listActive store cat) < 2"
    by (rule nextPair_EmptyPool_iff)
qed

lemma set_snapshot: "set (snapshot store cat) = set (listActive store cat)"
  by (simp add: snapshot_def)

lemma archived_not_in_snapshot:
  assumes "archived_in i store"
  shows "i \<notin> id_p ` set (snapshot store cat)"
proof
  assume "i \<in> id_p ` set (snapshot store cat)"
  then obtain e where "e \<in> set (snapshot store cat)" and "i = id_p e" by blast
  then have "e \<in> set (listActive store cat)" and "id_p e = i"
    by (simp_all only: set_snapshot)
  with archived_not_listed [OF assms] show False by blast
qed

lemma archived_not_paired:
  assumes "archived_in i store" and "nextPair cost recent store cat = Inr (idA, idB)"
  shows "idA \<noteq> i \<and> idB \<noteq> i"
proof -
  from nextPair_from_pool [OF assms(2)] obtain a b
    where p: "(a, b) \<in> set (pairs_of (listActive store cat))" and ids: "idA = id_p a" "idB = id_p b"
    by blast
  from set_pairs_of [OF p] have "a \<in> set (listActive store cat)" "b \<in> set (listActive store cat)"
    by simp_all
  then have "id_p a \<noteq> i" "id_p b \<noteq> i"
    using archived_not_listed [OF assms(1)] by blast+
  with ids show ?thesis by simp
qed

text \<open>
  Claim C6. For every category scope, \<open>snapshot\<close> returns the active entries of the scope,
  each as often as it is listed, sorted by mu descending with ties broken by id; and once
  an entry has been archived, it is in no snapshot and in no pair that \<open>nextPair\<close>
  returns, whatever commits and archive requests follow and whatever the scope.
\<close>

theorem snapshot_sorted_archive_excluded:
  "sorted_wrt ranks_before (snapshot store cat) \<and>
   mset (snapshot store cat) = mset (listActive store cat) \<and>
   (archive store i = Inr store' \<longrightarrow>
      (\<forall>ops cat'. i \<notin> id_p ` set (snapshot (run store' ops) cat') \<and>
         (\<forall>idA idB. nextPair cost recent (run store' ops) cat' = Inr (idA, idB) \<longrightarrow> idA \<noteq> i \<and> idB \<noteq> i)))"
proof (intro conjI impI allI)
  show "sorted_wrt ranks_before (snapshot store cat)" by (rule snapshot_sorted)
  show "mset (snapshot store cat) = mset (listActive store cat)" by (rule snapshot_mset)
next
  fix ops cat'
  assume "archive store i = Inr store'"
  then have "archived_in i (run store' ops)"
    by (intro archived_in_run archived_in_archive)
  then show "i \<notin> id_p ` set (snapshot (run store' ops) cat')"
    by (rule archived_not_in_snapshot)
next
  fix ops cat' idA idB
  assume "archive store i = Inr store'" and r: "nextPair cost recent (run store' ops) cat' = Inr (idA, idB)"
  then have a: "archived_in i (run store' ops)"
    by (intro archived_in_run archived_in_archive)
  from archived_not_paired [OF a r] show "idA \<noteq> i" "idB \<noteq> i" by simp_all
qed


lemma id_p_ent: "id_p (ent i c m s st) = i" by (simp add: ent_def)
lemma mu_ent: "mu (ent i c m s st) = m" by (simp add: ent_def)
lemma status_ent: "status (ent i c m s st) = st" by (simp add: ent_def)
lemma category_ent: "category (ent i c m s st) = c" by (simp add: ent_def)
lemma ent_commit: "(ent i c m s st)\<lparr>mu := m', sigma := s'\<rparr> = ent i c m' s' st" by (simp add: ent_def)
lemma ent_archive: "(ent i c m s st)\<lparr>status := Archived\<rparr> = ent i c m s Archived" by (simp add: ent_def)

lemmas ent_simps = id_p_ent mu_ent status_ent category_ent ent_commit ent_archive

lemma archive_store3: "archive store3 ''b'' = Inr store3_archived"
  by (simp add: archive_def get_def store3_def store3_archived_def ent_simps)

lemma listActive_store3: "listActive store3 None = store3"
  by (simp add: listActive_def store3_def in_scope_def ent_simps)

lemma listActive_store3_Health: "listActive store3 (Some ''Health'') = [ent ''c'' ''Health'' 27 5 Active]"
  by (simp add: listActive_def store3_def in_scope_def ent_simps)

lemma nextPair_store3: "nextPair mu_gap [] store3 None = Inr (''b'', ''c'')"
  by (simp add: nextPair_def eligible_def listActive_store3 shown_def)
     (simp add: store3_def mu_gap_def ent_simps)

text \<open>
  The store of three entries: over all categories the pair of least gap in mu is b and c;
  the category Health has one entry, so no pair.
\<close>

theorem nextPair_distinct_or_EmptyPool_witness:
  "distinct (map id_p store3) \<and>
   2 \<le> length (listActive store3 None) \<and>
   nextPair mu_gap [] store3 None = Inr (''b'', ''c'') \<and>
   length (listActive store3 (Some ''Health'')) < 2 \<and>
   nextPair mu_gap [] store3 (Some ''Health'') = Inl EmptyPool"
proof -
  have d: "distinct (map id_p store3)"
    by (simp add: store3_def ent_simps)
  from nextPair_distinct_or_EmptyPool [OF d, of "Some ''Health''" mu_gap "[]"]
  have "nextPair mu_gap [] store3 (Some ''Health'') = Inl EmptyPool"
    by (simp add: listActive_store3_Health)
  with d show ?thesis
    by (simp add: nextPair_store3 listActive_store3_Health listActive_store3) (simp add: store3_def)
qed

lemma run_example: "run store3_archived [Commit ''b'' 30 2] = 
   [ent ''a'' ''Science'' 25 8.333 Active, ent ''b'' ''Science'' 30 2 Archived, ent ''c'' ''Health'' 27 5 Active]"
  by (simp add: run_def commit_def store3_archived_def ent_simps)

lemma snapshot_store3: "map id_p (snapshot store3 None) = [''b'', ''c'', ''a'']"
  by (simp add: snapshot_def listActive_store3) (simp add: store3_def rank_key_def ent_simps)

text \<open>
  Archiving b in the store of three entries, then committing a new rating to b: b is in no
  snapshot. Before, the snapshot lists b, c, a: b and c tie at mu 27 and b has the smaller
  id.
\<close>

lemma nextPair_after_archive:
  "nextPair mu_gap [] (run store3_archived [Commit ''b'' 30 2]) None = Inr (''a'', ''c'')"
  unfolding run_example
  by (simp add: nextPair_def eligible_def listActive_def in_scope_def shown_def ent_simps)

theorem snapshot_sorted_archive_excluded_witness:
  "archive store3 ''b'' = Inr store3_archived \<and>
   ''b'' \<notin> id_p ` set (snapshot (run store3_archived [Commit ''b'' 30 2]) None) \<and>
   nextPair mu_gap [] (run store3_archived [Commit ''b'' 30 2]) None = Inr (''a'', ''c'') \<and>
   ''a'' \<noteq> ''b'' \<and> ''c'' \<noteq> ''b'' \<and>
   map id_p (snapshot store3 None) = [''b'', ''c'', ''a'']"
  using snapshot_sorted_archive_excluded [of store3 None "''b''" store3_archived mu_gap "[]"]
    archive_store3 snapshot_store3 nextPair_after_archive
  by simp

end
